theory Spec2Isabelle
  imports Main
begin

section \<open>Snowflake client (clients/snowflake-client.ts)\<close>

text \<open>
  Times are milliseconds as returned by \<^verbatim>\<open>Date.now()\<close>; every operation that reads the
  clock takes the reading as its argument \<open>now\<close>.  A \<^verbatim>\<open>SnowflakeClient\<close> object is
  identified by \<open>ref\<close> (JavaScript compares objects by reference); \<open>connection\<close> is
  \<^verbatim>\<open>this.connection !== null\<close>.
\<close>

record SnowflakeClient =
  ref :: nat
  connection :: bool
  client_lastUsed :: int
  activeQueries :: "string list"

definition new_SnowflakeClient :: "nat \<Rightarrow> int \<Rightarrow> SnowflakeClient" where
  "new_SnowflakeClient r now =
     \<lparr>ref = r, connection = False, client_lastUsed = now, activeQueries = []\<rparr>"

text \<open>
  Every failure of the source is a JavaScript \<^verbatim>\<open>Error\<close> with a message; the constructors
  below stand for the messages, with the number that the message interpolates.
\<close>

datatype error =
    PoolShuttingDown              \<comment> \<open>"Connection pool is shutting down"\<close>
  | AcquireTimeout int            \<comment> \<open>"Connection acquire timeout after <n>ms"\<close>
  | ConnectionTimeout             \<comment> \<open>"Connection timeout after 10 seconds"\<close>
  | ConnectionFailed string       \<comment> \<open>"Snowflake connection failed: <msg>"\<close>
  | NoConnection                  \<comment> \<open>"Failed to establish connection to Snowflake"\<close>
  | QueryTimeout int              \<comment> \<open>"Query execution timeout after <n>ms"\<close>
  | ExecutionFailed string        \<comment> \<open>"SQL execution failed: <msg>"\<close>
  | DisconnectFailed string       \<comment> \<open>"Disconnect failed: <msg>"\<close>

definition defaultTimeout :: int where
  "defaultTimeout = 30000"

definition isConnectionHealthy :: "SnowflakeClient \<Rightarrow> int \<Rightarrow> bool" where
  "isConnectionHealthy c now =
     (if \<not> connection c then False
      else let maxIdleTime = 30 * 60 * 1000;
               timeSinceLastUse = now - client_lastUsed c
           in if timeSinceLastUse > maxIdleTime then False else True)"

definition isConnected :: "SnowflakeClient \<Rightarrow> int \<Rightarrow> bool" where
  "isConnected c now = (connection c \<and> isConnectionHealthy c now)"

text \<open>
  What the driver does with a handshake, a query or a \<^verbatim>\<open>destroy\<close> is not decided by this
  code; it is an argument of the model.  A duration is the time after which the driver
  calls back.  A timer fires after the delay that Node.js gives it (\<open>setTimeout_delay\<close>).
  When an operation calls back in the millisecond in which the timer it is raced against
  fires, the one that was started first wins: the timer in \<^verbatim>\<open>establishConnection\<close>, which
  sets its timer before it calls the driver, and the query in \<^verbatim>\<open>execute\<close>, which starts
  the query before it sets the timer.
\<close>

text \<open>
  The delay of \<^verbatim>\<open>setTimeout(callback, ms)\<close> in Node.js: a delay below 1 or above 2147483647
  is set to 1.
\<close>

definition setTimeout_delay :: "int \<Rightarrow> int" where
  "setTimeout_delay ms = (if ms < 1 \<or> ms > 2147483647 then 1 else ms)"

datatype handshake = HandshakeOk int | HandshakeErr int string | HandshakeHangs

text \<open>\<^verbatim>\<open>establishConnection\<close>: the driver's callback raced against a 10 second timer.\<close>

definition establishConnection ::
  "SnowflakeClient \<Rightarrow> int \<Rightarrow> handshake \<Rightarrow> (error + unit) \<times> SnowflakeClient \<times> int" where
  "establishConnection c now hs =
     (case hs of
        HandshakeOk d \<Rightarrow>
          if d < setTimeout_delay 10000
          then (Inr (), c\<lparr>connection := True, client_lastUsed := now + d\<rparr>, now + d)
          else (Inl ConnectionTimeout, c\<lparr>connection := False\<rparr>, now + setTimeout_delay 10000)
      | HandshakeErr d msg \<Rightarrow>
          if d < setTimeout_delay 10000
          then (Inl (ConnectionFailed msg), c\<lparr>connection := False\<rparr>, now + d)
          else (Inl ConnectionTimeout, c\<lparr>connection := False\<rparr>, now + setTimeout_delay 10000)
      | HandshakeHangs \<Rightarrow>
          (Inl ConnectionTimeout, c\<lparr>connection := False\<rparr>, now + setTimeout_delay 10000))"

text \<open>
  \<^verbatim>\<open>connect\<close>, for a client with no attempt in flight (\<^verbatim>\<open>isConnecting\<close> false): the result,
  the client afterwards and the time at which the caller resumes.
\<close>

definition connect ::
  "SnowflakeClient \<Rightarrow> int \<Rightarrow> handshake \<Rightarrow> (error + unit) \<times> SnowflakeClient \<times> int" where
  "connect c now hs =
     (if connection c \<and> isConnectionHealthy c now
      then (Inr (), c\<lparr>client_lastUsed := now\<rparr>, now)
      else establishConnection c now hs)"

text \<open>\<^verbatim>\<open>disconnect\<close>: \<open>ok\<close> tells whether the driver's \<^verbatim>\<open>destroy\<close> succeeds.\<close>

definition disconnect :: "SnowflakeClient \<Rightarrow> bool \<Rightarrow> (error + unit) \<times> SnowflakeClient" where
  "disconnect c ok =
     (if \<not> connection c then (Inr (), c)
      else if ok then (Inr (), c\<lparr>connection := False\<rparr>)
      else (Inl (DisconnectFailed []), c\<lparr>connection := False\<rparr>))"

subsection \<open>execute\<close>

record ColumnMetadata =
  col_name :: string
  col_type :: string
  nullable :: bool

record QueryResult =
  rows :: "string list list"
  rowCount :: nat
  columns :: "ColumnMetadata list"

record QueryOptions =
  timeout :: "int option"

datatype query_run =
    Completes int "string list list option" "ColumnMetadata list"
  | Fails int string
  | NeverCompletes

text \<open>\<^verbatim>\<open>options.timeout || this.defaultTimeout\<close>: an absent timeout and 0 are falsy.\<close>

definition effective_timeout :: "QueryOptions \<Rightarrow> int" where
  "effective_timeout options =
     (case timeout options of
        None \<Rightarrow> defaultTimeout
      | Some t \<Rightarrow> if t = 0 then defaultTimeout else t)"

text \<open>
  \<^verbatim>\<open>Promise.race([executeQuery(sql, queryId), createTimeoutPromise(timeout, queryId)])\<close>
  started at \<open>start\<close>: the settlement and the time of it.  The timer of
  \<^verbatim>\<open>createTimeoutPromise\<close> is set for \<open>t\<close> milliseconds and its error names \<open>t\<close>.
\<close>

definition race ::
  "query_run \<Rightarrow> int \<Rightarrow> int \<Rightarrow> (error + QueryResult) \<times> int" where
  "race q t start =
     (let fires = setTimeout_delay t
      in case q of
           Completes d rs cols \<Rightarrow>
             if d \<le> fires
             then (let rows' = (case rs of None \<Rightarrow> [] | Some r \<Rightarrow> r)
                   in (Inr \<lparr>rows = rows', rowCount = length rows', columns = cols\<rparr>, start + d))
             else (Inl (QueryTimeout t), start + fires)
         | Fails d msg \<Rightarrow>
             if d \<le> fires then (Inl (ExecutionFailed msg), start + d)
             else (Inl (QueryTimeout t), start + fires)
         | NeverCompletes \<Rightarrow> (Inl (QueryTimeout t), start + fires))"

text \<open>
  \<^verbatim>\<open>execute(sql, options)\<close> called at \<open>now\<close>: the result, the client afterwards and the
  time at which control returns to the caller.
\<close>

definition execute ::
  "SnowflakeClient \<Rightarrow> string \<Rightarrow> QueryOptions \<Rightarrow> int \<Rightarrow> handshake \<Rightarrow> string \<Rightarrow> query_run
     \<Rightarrow> (error + QueryResult) \<times> SnowflakeClient \<times> int" where
  "execute c sql options now hs queryId q =
     (case connect c now hs of
        (Inl e, c1, t1) \<Rightarrow> (Inl e, c1, t1)
      | (Inr _, c1, t1) \<Rightarrow>
          if \<not> connection c1 then (Inl NoConnection, c1, t1)
          else
            let t = effective_timeout options;
                c2 = c1\<lparr>activeQueries := List.insert queryId (activeQueries c1),
                        client_lastUsed := t1\<rparr>;
                (result, t2) = race q t t1;
                c3 = c2\<lparr>activeQueries := removeAll queryId (activeQueries c2)\<rparr>
            in (result, c3, t2))"

section \<open>Connection pool (utils/connection-pool.ts)\<close>

record ConnectionPoolConfig =
  maxConnections :: int
  minConnections :: int
  connectionTimeout :: int
  idleTimeout :: int
  acquireTimeout :: int

text \<open>\<^verbatim>\<open>Partial<ConnectionPoolConfig>\<close>: every field may be absent.\<close>

record PartialConnectionPoolConfig =
  maxConnections_opt :: "int option"
  minConnections_opt :: "int option"
  connectionTimeout_opt :: "int option"
  idleTimeout_opt :: "int option"
  acquireTimeout_opt :: "int option"

record PooledConnection =
  client :: SnowflakeClient
  conn_id :: string
  createdAt :: int
  lastUsed :: int
  inUse :: bool

text \<open>
  A queued request holds two closures.  The promise made by the \<open>p\<close>-th call of
  \<^verbatim>\<open>waitForConnection\<close> has the executor functions \<open>PromiseResolve p\<close> and
  \<open>PromiseReject p\<close>; the arrow functions that \<^verbatim>\<open>waitForConnection\<close> stores in the queue,
  which clear the timer and then call the executor function, are other function objects:
  \<open>WrappedResolve p\<close> and \<open>WrappedReject p\<close>.  \<^verbatim>\<open>===\<close> on functions is identity.
\<close>

datatype resolver = PromiseResolve nat | WrappedResolve nat

datatype rejecter = PromiseReject nat | WrappedReject nat

record WaitRequest =
  resolve :: resolver
  reject :: rejecter
  timestamp :: int

datatype settlement = Pending | Fulfilled nat | Rejected error

datatype interval = Running | Cleared

text \<open>Calls the pool makes on objects it does not own, in the order it makes them.\<close>

datatype effect =
    ResolveCalled resolver nat
  | RejectCalled rejecter error
  | DisconnectCalled nat

datatype caller = ByAcquire | ByInitialize

text \<open>A \<^verbatim>\<open>createConnection\<close> call suspended at \<^verbatim>\<open>await client.connect()\<close>.\<close>

record creation =
  cr_client :: SnowflakeClient
  cr_id :: string
  cr_started :: int
  cr_caller :: caller

text \<open>
  The pool object and what its closures refer to.  \<open>connections\<close> is the \<^verbatim>\<open>Map\<close> in
  insertion order, keyed by \<open>conn_id\<close>.  \<open>promises ! p\<close> is the state of the promise of
  the \<open>p\<close>-th \<^verbatim>\<open>waitForConnection\<close> call and \<open>acquireTimers ! p\<close> tells whether its timer
  is still set.  \<open>creating\<close> holds the suspended \<^verbatim>\<open>createConnection\<close> calls, \<open>nextRef\<close>
  numbers the client objects, \<open>effects\<close> is the trace of calls made.
\<close>

record ConnectionPool =
  poolConfig :: ConnectionPoolConfig
  connections :: "PooledConnection list"
  waitingQueue :: "WaitRequest list"
  isShuttingDown :: bool
  cleanupInterval :: "interval option"
  promises :: "settlement list"
  acquireTimers :: "bool list"
  creating :: "creation list"
  nextRef :: nat
  effects :: "effect list"

text \<open>
  \<^verbatim>\<open>x || d\<close> on an optional number: absent and 0 are falsy (so is \<^verbatim>\<open>NaN\<close>, which is not a
  value of this model: numbers are integers).
\<close>

definition or_default :: "int option \<Rightarrow> int \<Rightarrow> int" where
  "or_default x d = (case x of None \<Rightarrow> d | Some v \<Rightarrow> if v = 0 then d else v)"

definition constructor :: "PartialConnectionPoolConfig \<Rightarrow> ConnectionPool" where
  "constructor pc =
     \<lparr>poolConfig =
        \<lparr>maxConnections = or_default (maxConnections_opt pc) 10,
         minConnections = or_default (minConnections_opt pc) 2,
         connectionTimeout = or_default (connectionTimeout_opt pc) 30000,
         idleTimeout = or_default (idleTimeout_opt pc) 300000,
         acquireTimeout = or_default (acquireTimeout_opt pc) 10000\<rparr>,
      connections = [],
      waitingQueue = [],
      isShuttingDown = False,
      cleanupInterval = Some Running,
      promises = [],
      acquireTimers = [],
      creating = [],
      nextRef = 0,
      effects = []\<rparr>"

subsection \<open>The Map of connections\<close>

fun map_set :: "string \<Rightarrow> PooledConnection \<Rightarrow> PooledConnection list \<Rightarrow> PooledConnection list" where
  "map_set k v [] = [v]"
| "map_set k v (x # xs) = (if conn_id x = k then v # xs else x # map_set k v xs)"

definition map_delete :: "string \<Rightarrow> PooledConnection list \<Rightarrow> PooledConnection list" where
  "map_delete k xs = filter (\<lambda>x. conn_id x \<noteq> k) xs"

text \<open>The index of the first element that satisfies \<open>P\<close>, as a \<^verbatim>\<open>for ... of\<close> scan finds it.\<close>

fun first_index :: "('a \<Rightarrow> bool) \<Rightarrow> 'a list \<Rightarrow> nat option" where
  "first_index P [] = None"
| "first_index P (x # xs) =
     (if P x then Some 0 else map_option Suc (first_index P xs))"

definition findAvailableConnection :: "ConnectionPool \<Rightarrow> int \<Rightarrow> nat option" where
  "findAvailableConnection s now =
     first_index (\<lambda>c. \<not> inUse c \<and> isConnected (client c) now) (connections s)"

definition findConnectionByClient :: "ConnectionPool \<Rightarrow> nat \<Rightarrow> nat option" where
  "findConnectionByClient s r =
     first_index (\<lambda>c. ref (client c) = r) (connections s)"

definition getAvailableConnectionCount :: "ConnectionPool \<Rightarrow> int \<Rightarrow> nat" where
  "getAvailableConnectionCount s now =
     length (filter (\<lambda>c. \<not> inUse c \<and> isConnected (client c) now) (connections s))"

definition getInUseConnectionCount :: "ConnectionPool \<Rightarrow> nat" where
  "getInUseConnectionCount s = length (filter inUse (connections s))"

subsection \<open>Promises and timers of waiting callers\<close>

definition settle :: "nat \<Rightarrow> settlement \<Rightarrow> ConnectionPool \<Rightarrow> ConnectionPool" where
  "settle p v s =
     (if p < length (promises s) \<and> promises s ! p = Pending
      then s\<lparr>promises := (promises s)[p := v]\<rparr> else s)"

definition clearTimeout :: "nat \<Rightarrow> ConnectionPool \<Rightarrow> ConnectionPool" where
  "clearTimeout p s = s\<lparr>acquireTimers := (acquireTimers s)[p := False]\<rparr>"

fun call_resolve :: "resolver \<Rightarrow> nat \<Rightarrow> ConnectionPool \<Rightarrow> ConnectionPool" where
  "call_resolve (PromiseResolve p) c s =
     settle p (Fulfilled c) (s\<lparr>effects := effects s @ [ResolveCalled (PromiseResolve p) c]\<rparr>)"
| "call_resolve (WrappedResolve p) c s =
     settle p (Fulfilled c)
       (clearTimeout p (s\<lparr>effects := effects s @ [ResolveCalled (WrappedResolve p) c]\<rparr>))"

fun call_reject :: "rejecter \<Rightarrow> error \<Rightarrow> ConnectionPool \<Rightarrow> ConnectionPool" where
  "call_reject (PromiseReject p) e s =
     settle p (Rejected e) (s\<lparr>effects := effects s @ [RejectCalled (PromiseReject p) e]\<rparr>)"
| "call_reject (WrappedReject p) e s =
     settle p (Rejected e)
       (clearTimeout p (s\<lparr>effects := effects s @ [RejectCalled (WrappedReject p) e]\<rparr>))"

lemma settle_fields [simp]:
  "poolConfig (settle p v s) = poolConfig s"
  "connections (settle p v s) = connections s"
  "waitingQueue (settle p v s) = waitingQueue s"
  "isShuttingDown (settle p v s) = isShuttingDown s"
  "cleanupInterval (settle p v s) = cleanupInterval s"
  "acquireTimers (settle p v s) = acquireTimers s"
  "creating (settle p v s) = creating s"
  "nextRef (settle p v s) = nextRef s"
  "effects (settle p v s) = effects s"
  "length (promises (settle p v s)) = length (promises s)"
  by (simp_all add: settle_def)

lemma clearTimeout_fields [simp]:
  "poolConfig (clearTimeout p s) = poolConfig s"
  "connections (clearTimeout p s) = connections s"
  "waitingQueue (clearTimeout p s) = waitingQueue s"
  "isShuttingDown (clearTimeout p s) = isShuttingDown s"
  "cleanupInterval (clearTimeout p s) = cleanupInterval s"
  "promises (clearTimeout p s) = promises s"
  "creating (clearTimeout p s) = creating s"
  "nextRef (clearTimeout p s) = nextRef s"
  "effects (clearTimeout p s) = effects s"
  "length (acquireTimers (clearTimeout p s)) = length (acquireTimers s)"
  by (simp_all add: clearTimeout_def)

lemma call_resolve_fields [simp]:
  "poolConfig (call_resolve f c s) = poolConfig s"
  "connections (call_resolve f c s) = connections s"
  "waitingQueue (call_resolve f c s) = waitingQueue s"
  "isShuttingDown (call_resolve f c s) = isShuttingDown s"
  "cleanupInterval (call_resolve f c s) = cleanupInterval s"
  "creating (call_resolve f c s) = creating s"
  "nextRef (call_resolve f c s) = nextRef s"
  "effects (call_resolve f c s) = effects s @ [ResolveCalled f c]"
  "length (promises (call_resolve f c s)) = length (promises s)"
  "length (acquireTimers (call_resolve f c s)) = length (acquireTimers s)"
  by (cases f; simp)+

lemma call_reject_fields [simp]:
  "poolConfig (call_reject g e s) = poolConfig s"
  "connections (call_reject g e s) = connections s"
  "waitingQueue (call_reject g e s) = waitingQueue s"
  "isShuttingDown (call_reject g e s) = isShuttingDown s"
  "cleanupInterval (call_reject g e s) = cleanupInterval s"
  "creating (call_reject g e s) = creating s"
  "nextRef (call_reject g e s) = nextRef s"
  "effects (call_reject g e s) = effects s @ [RejectCalled g e]"
  "length (promises (call_reject g e s)) = length (promises s)"
  "length (acquireTimers (call_reject g e s)) = length (acquireTimers s)"
  by (cases g; simp)+

subsection \<open>Waiting\<close>

datatype acquire_outcome =
    Threw error
  | Returned nat
  | AwaitingConnect nat
  | AwaitingQueue nat

text \<open>
  \<^verbatim>\<open>waitForConnection\<close>: a new promise \<open>p\<close>, its timer set for \<^verbatim>\<open>acquireTimeout\<close>, and a
  request with the two wrapping closures pushed on the queue.  The caller stays suspended
  on promise \<open>p\<close>.
\<close>

definition waitForConnection :: "ConnectionPool \<Rightarrow> int \<Rightarrow> acquire_outcome \<times> ConnectionPool" where
  "waitForConnection s now =
     (let p = length (promises s)
      in (AwaitingQueue p,
          s\<lparr>promises := promises s @ [Pending],
            acquireTimers := acquireTimers s @ [True],
            waitingQueue := waitingQueue s @
              [\<lparr>resolve = WrappedResolve p, reject = WrappedReject p, timestamp = now\<rparr>]\<rparr>))"

text \<open>
  The callback of the timer that \<^verbatim>\<open>waitForConnection\<close> sets for promise \<open>p\<close>:
  \<^verbatim>\<open>findIndex(req => req.resolve === resolve)\<close> compares each queued closure with the
  executor's \<^verbatim>\<open>resolve\<close>, \<^verbatim>\<open>splice(index, 1)\<close> drops the entry found, and the executor's
  \<^verbatim>\<open>reject\<close> is called.
\<close>

definition acquireTimeoutCallback :: "nat \<Rightarrow> ConnectionPool \<Rightarrow> ConnectionPool" where
  "acquireTimeoutCallback p s =
     (let index = first_index (\<lambda>req. resolve req = PromiseResolve p) (waitingQueue s);
          s1 = (case index of
                  None \<Rightarrow> s
                | Some i \<Rightarrow> s\<lparr>waitingQueue := take i (waitingQueue s) @ drop (Suc i) (waitingQueue s)\<rparr>)
      in call_reject (PromiseReject p) (AcquireTimeout (acquireTimeout (poolConfig s1))) s1)"

text \<open>The timer of promise \<open>p\<close> fires, if it is still set; after that it is set no more.\<close>

definition acquireTimerFires :: "nat \<Rightarrow> ConnectionPool \<Rightarrow> ConnectionPool" where
  "acquireTimerFires p s =
     (if p < length (acquireTimers s) \<and> acquireTimers s ! p
      then acquireTimeoutCallback p (clearTimeout p s) else s)"

function processWaitingQueue :: "ConnectionPool \<Rightarrow> int \<Rightarrow> ConnectionPool" where
  "processWaitingQueue s now =
     (case waitingQueue s of
        [] \<Rightarrow> s
      | request # rest \<Rightarrow>
          (case findAvailableConnection s now of
             None \<Rightarrow> s
           | Some i \<Rightarrow>
               let availableConnection = connections s ! i;
                   s1 = s\<lparr>waitingQueue := rest,
                           connections := (connections s)
                             [i := availableConnection\<lparr>inUse := True, lastUsed := now\<rparr>]\<rparr>
               in processWaitingQueue
                    (call_resolve (resolve request) (ref (client availableConnection)) s1) now))"
  by pat_completeness auto
termination
  by (relation "measure (\<lambda>(s, now). length (waitingQueue s))") auto

declare processWaitingQueue.simps [simp del]

subsection \<open>Creating connections\<close>

text \<open>
  \<^verbatim>\<open>createConnection\<close> up to its \<^verbatim>\<open>await client.connect()\<close>: the identifier \<open>connectionId\<close>
  is the one \<^verbatim>\<open>generateConnectionId\<close> yields, the client object is new.  Nothing is added
  to \<open>connections\<close> before the handshake has settled.
\<close>

definition createConnection_begin ::
  "ConnectionPool \<Rightarrow> int \<Rightarrow> string \<Rightarrow> caller \<Rightarrow> nat \<times> ConnectionPool" where
  "createConnection_begin s now connectionId who =
     (let r = nextRef s;
          cl = new_SnowflakeClient r now
      in (r, s\<lparr>nextRef := Suc r,
               creating := creating s @
                 [\<lparr>cr_client = cl, cr_id = connectionId, cr_started = now, cr_caller = who\<rparr>]\<rparr>))"

text \<open>The rest of \<^verbatim>\<open>createConnection\<close>, once the handshake \<open>hs\<close> of its client has settled.\<close>

definition createConnection_finish ::
  "ConnectionPool \<Rightarrow> creation \<Rightarrow> handshake \<Rightarrow> (error + PooledConnection) \<times> ConnectionPool" where
  "createConnection_finish s cr hs =
     (case connect (cr_client cr) (cr_started cr) hs of
        (Inl e, cl, t) \<Rightarrow> (Inl e, s)
      | (Inr _, cl, t) \<Rightarrow>
          let conn = \<lparr>client = cl, conn_id = cr_id cr, createdAt = t, lastUsed = t,
                              inUse = False\<rparr>
          in (Inr conn, s\<lparr>connections := map_set (cr_id cr) conn (connections s)\<rparr>))"

definition settled_at :: "creation \<Rightarrow> handshake \<Rightarrow> int" where
  "settled_at cr hs = snd (snd (connect (cr_client cr) (cr_started cr) hs))"

subsection \<open>acquire, release\<close>

text \<open>\<^verbatim>\<open>acquire\<close> up to its first suspension.\<close>

definition acquire_begin ::
  "ConnectionPool \<Rightarrow> int \<Rightarrow> string \<Rightarrow> acquire_outcome \<times> ConnectionPool" where
  "acquire_begin s now connectionId =
     (if isShuttingDown s then (Threw PoolShuttingDown, s)
      else case findAvailableConnection s now of
             Some i \<Rightarrow>
               let availableConnection = connections s ! i
               in (Returned (ref (client availableConnection)),
                   s\<lparr>connections := (connections s)
                       [i := availableConnection\<lparr>inUse := True, lastUsed := now\<rparr>]\<rparr>)
           | None \<Rightarrow>
               if int (length (connections s)) < maxConnections (poolConfig s)
               then (case createConnection_begin s now connectionId ByAcquire of
                       (r, s1) \<Rightarrow> (AwaitingConnect r, s1))
               else waitForConnection s now)"

text \<open>
  \<^verbatim>\<open>acquire\<close> resumed after \<^verbatim>\<open>await this.createConnection()\<close>: the new connection is marked
  in use and its client returned, or the error is caught and the caller waits.
\<close>

definition acquire_resume ::
  "ConnectionPool \<Rightarrow> creation \<Rightarrow> handshake \<Rightarrow> acquire_outcome \<times> ConnectionPool" where
  "acquire_resume s cr hs =
     (case createConnection_finish s cr hs of
        (Inr conn, s1) \<Rightarrow>
          (Returned (ref (client conn)),
           s1\<lparr>connections :=
                map (\<lambda>x. if conn_id x = conn_id conn then x\<lparr>inUse := True\<rparr> else x)
                  (connections s1)\<rparr>)
      | (Inl e, s1) \<Rightarrow> waitForConnection s1 (settled_at cr hs))"

text \<open>\<^verbatim>\<open>release(client)\<close>, the client given by its reference.\<close>

definition release :: "ConnectionPool \<Rightarrow> nat \<Rightarrow> int \<Rightarrow> ConnectionPool" where
  "release s r now =
     (case findConnectionByClient s r of
        None \<Rightarrow> s
      | Some i \<Rightarrow>
          processWaitingQueue
            (s\<lparr>connections := (connections s)
                 [i := (connections s ! i)\<lparr>inUse := False, lastUsed := now\<rparr>]\<rparr>) now)"

subsection \<open>shutdown, idle reclamation, initialize\<close>

function rejectWaiting :: "ConnectionPool \<Rightarrow> ConnectionPool" where
  "rejectWaiting s =
     (case waitingQueue s of
        [] \<Rightarrow> s
      | request # rest \<Rightarrow>
          rejectWaiting (call_reject (reject request) PoolShuttingDown (s\<lparr>waitingQueue := rest\<rparr>)))"
  by pat_completeness auto
termination
  by (relation "measure (\<lambda>s. length (waitingQueue s))") auto

declare rejectWaiting.simps [simp del]

text \<open>
  \<^verbatim>\<open>shutdown\<close>; \<open>destroy_ok r\<close> tells whether the driver's \<^verbatim>\<open>destroy\<close> succeeds for client
  \<open>r\<close>.  Every client is disconnected; a failing disconnect is caught and logged, and
  the map is cleared in either case.
\<close>

definition shutdown :: "ConnectionPool \<Rightarrow> (nat \<Rightarrow> bool) \<Rightarrow> ConnectionPool" where
  "shutdown s destroy_ok =
     (let s1 = s\<lparr>isShuttingDown := True\<rparr>;
          s2 = (case cleanupInterval s1 of
                  None \<Rightarrow> s1
                | Some _ \<Rightarrow> s1\<lparr>cleanupInterval := Some Cleared\<rparr>);
          s3 = rejectWaiting s2;
          s4 = s3\<lparr>connections :=
                  map (\<lambda>c. c\<lparr>client := snd (disconnect (client c) (destroy_ok (ref (client c))))\<rparr>)
                    (connections s3),
                effects := effects s3 @
                  map (\<lambda>c. DisconnectCalled (ref (client c))) (connections s3)\<rparr>
      in s4\<lparr>connections := []\<rparr>)"

text \<open>One connection of \<^verbatim>\<open>connectionsToClose\<close>: disconnect, then delete unless that threw.\<close>

definition closeIdle :: "(nat \<Rightarrow> bool) \<Rightarrow> PooledConnection \<Rightarrow> ConnectionPool \<Rightarrow> ConnectionPool" where
  "closeIdle destroy_ok c s =
     (let s1 = s\<lparr>effects := effects s @ [DisconnectCalled (ref (client c))]\<rparr>
      in case disconnect (client c) (destroy_ok (ref (client c))) of
           (Inr _, cl) \<Rightarrow> s1\<lparr>connections := map_delete (conn_id c) (connections s1)\<rparr>
         | (Inl e, cl) \<Rightarrow>
             s1\<lparr>connections :=
                  map (\<lambda>x. if ref (client x) = ref (client c) then x\<lparr>client := cl\<rparr> else x)
                    (connections s1)\<rparr>)"

definition cleanupIdleConnections :: "ConnectionPool \<Rightarrow> int \<Rightarrow> (nat \<Rightarrow> bool) \<Rightarrow> ConnectionPool" where
  "cleanupIdleConnections s now destroy_ok =
     (if isShuttingDown s then s
      else
        let connectionsToClose =
              filter (\<lambda>conn.
                  let idleTime = now - lastUsed conn
                  in \<not> inUse conn \<and> idleTime > idleTimeout (poolConfig s)
                     \<and> int (length (connections s)) > minConnections (poolConfig s))
                (connections s)
        in fold (closeIdle destroy_ok) connectionsToClose s)"

text \<open>
  \<^verbatim>\<open>initialize\<close> up to \<^verbatim>\<open>await Promise.allSettled\<close>: one \<^verbatim>\<open>createConnection\<close> call is started
  for each \<open>i < minConnections\<close>; \<open>ids i\<close> is the identifier generated for the \<open>i\<close>-th.
\<close>

definition initialize :: "ConnectionPool \<Rightarrow> int \<Rightarrow> (nat \<Rightarrow> string) \<Rightarrow> ConnectionPool" where
  "initialize s now ids =
     fold (\<lambda>i st. snd (createConnection_begin st now (ids i) ByInitialize))
       [0 ..< nat (minConnections (poolConfig s))] s"

subsection \<open>Interleavings\<close>

text \<open>
  JavaScript runs each piece of code between two suspension points without interruption.
  An event is one such piece: a call of a public method up to its first \<^verbatim>\<open>await\<close>, the
  settling of a handshake that resumes a suspended \<^verbatim>\<open>createConnection\<close>, or a timer
  firing.  \<^verbatim>\<open>shutdown\<close> and the idle reclamation are taken as one piece each, and so are
  the end of \<^verbatim>\<open>createConnection\<close> and the continuation of the \<^verbatim>\<open>acquire\<close> that awaits it.
  A caller that holds a reference to a client may run \<^verbatim>\<open>execute\<close> on it; for the pool this
  changes the state of that client.
\<close>

datatype event =
    Acquire int string
  | ConnectSettles nat handshake
  | Release nat int
  | AcquireTimerFires nat
  | CleanupTick int "nat \<Rightarrow> bool"
  | Shutdown "nat \<Rightarrow> bool"
  | Initialize int "nat \<Rightarrow> string"
  | Execute nat string QueryOptions int handshake string query_run

definition clientExecutes ::
  "ConnectionPool \<Rightarrow> nat \<Rightarrow> string \<Rightarrow> QueryOptions \<Rightarrow> int \<Rightarrow> handshake \<Rightarrow> string \<Rightarrow> query_run
     \<Rightarrow> ConnectionPool" where
  "clientExecutes s r sql options now hs queryId q =
     s\<lparr>connections :=
         map (\<lambda>x. if ref (client x) = r
                  then x\<lparr>client := fst (snd (execute (client x) sql options now hs queryId q))\<rparr>
                  else x)
           (connections s)\<rparr>"

definition connectSettles :: "ConnectionPool \<Rightarrow> nat \<Rightarrow> handshake \<Rightarrow> ConnectionPool" where
  "connectSettles s r hs =
     (case find (\<lambda>cr. ref (cr_client cr) = r) (creating s) of
        None \<Rightarrow> s
      | Some cr \<Rightarrow>
          let s1 = s\<lparr>creating := filter (\<lambda>x. ref (cr_client x) \<noteq> r) (creating s)\<rparr>
          in case cr_caller cr of
               ByAcquire \<Rightarrow> snd (acquire_resume s1 cr hs)
             | ByInitialize \<Rightarrow> snd (createConnection_finish s1 cr hs))"

fun step :: "ConnectionPool \<Rightarrow> event \<Rightarrow> ConnectionPool" where
  "step s (Acquire now connectionId) = snd (acquire_begin s now connectionId)"
| "step s (ConnectSettles r hs) = connectSettles s r hs"
| "step s (Release r now) = release s r now"
| "step s (AcquireTimerFires p) = acquireTimerFires p s"
| "step s (CleanupTick now destroy_ok) =
     (if cleanupInterval s = Some Running then cleanupIdleConnections s now destroy_ok else s)"
| "step s (Shutdown destroy_ok) = shutdown s destroy_ok"
| "step s (Initialize now ids) = initialize s now ids"
| "step s (Execute r sql options now hs queryId q) = clientExecutes s r sql options now hs queryId q"

definition run :: "ConnectionPool \<Rightarrow> event list \<Rightarrow> ConnectionPool" where
  "run s evs = foldl step s evs"

text \<open>
  A call of \<^verbatim>\<open>acquire\<close> that is not interleaved with anything: if it starts a
  \<^verbatim>\<open>createConnection\<close> (which \<open>acquire_begin\<close> puts last in \<open>creating\<close>), the handshake
  \<open>hs\<close> of that connection settles and \<^verbatim>\<open>acquire\<close> resumes before any other event.
\<close>

definition acquire ::
  "ConnectionPool \<Rightarrow> int \<Rightarrow> string \<Rightarrow> handshake \<Rightarrow> acquire_outcome \<times> ConnectionPool" where
  "acquire s now connectionId hs =
     (case acquire_begin s now connectionId of
        (AwaitingConnect r, s1) \<Rightarrow>
          acquire_resume (s1\<lparr>creating := butlast (creating s1)\<rparr>) (last (creating s1)) hs
      | other \<Rightarrow> other)"

text \<open>Calls of \<^verbatim>\<open>acquire\<close> and \<^verbatim>\<open>release\<close> made one after the other.\<close>

datatype call = AcquireCall int string handshake | ReleaseCall nat int

fun perform :: "ConnectionPool \<Rightarrow> call \<Rightarrow> ConnectionPool" where
  "perform s (AcquireCall now connectionId hs) = snd (acquire s now connectionId hs)"
| "perform s (ReleaseCall r now) = release s r now"

subsection \<open>Predicates used in the statements\<close>

text \<open>The driver calls back for the query no later than \<open>t\<close> milliseconds after the race began.\<close>

definition completes_within :: "query_run \<Rightarrow> int \<Rightarrow> bool" where
  "completes_within q t =
     (case q of Completes d rs cols \<Rightarrow> d \<le> t | Fails d msg \<Rightarrow> d \<le> t | NeverCompletes \<Rightarrow> False)"

text \<open>The promise a queued closure belongs to.\<close>

fun resolver_id :: "resolver \<Rightarrow> nat" where
  "resolver_id (PromiseResolve p) = p"
| "resolver_id (WrappedResolve p) = p"

fun rejecter_id :: "rejecter \<Rightarrow> nat" where
  "rejecter_id (PromiseReject p) = p"
| "rejecter_id (WrappedReject p) = p"

text \<open>
  The promises whose \<^verbatim>\<open>resolve\<close> closure the pool has called, in the order of the calls,
  and the promises of the requests in a queue, from its head.  \<^verbatim>\<open>waitForConnection\<close> numbers
  the promises in the order in which their requests are enqueued.
\<close>

fun resolved_ids :: "effect list \<Rightarrow> nat list" where
  "resolved_ids [] = []"
| "resolved_ids (ResolveCalled f c # es) = resolver_id f # resolved_ids es"
| "resolved_ids (e # es) = resolved_ids es"

definition queued_ids :: "WaitRequest list \<Rightarrow> nat list" where
  "queued_ids q = map (\<lambda>req. resolver_id (resolve req)) q"

text \<open>
  How the promise of a waiting caller may stand: pending, fulfilled with a client, or
  rejected with the shutdown error or with the acquire-timeout error of the configuration.
\<close>

definition waiter_settlement :: "ConnectionPoolConfig \<Rightarrow> settlement \<Rightarrow> bool" where
  "waiter_settlement cfg v =
     (case v of
        Pending \<Rightarrow> True
      | Fulfilled c \<Rightarrow> True
      | Rejected e \<Rightarrow> e = PoolShuttingDown \<or> e = AcquireTimeout (acquireTimeout cfg))"

text \<open>
  The queue holds only the wrapping closures of \<^verbatim>\<open>waitForConnection\<close>; the promises already
  resolved, in the order of the calls, followed by those queued, from the head of the
  queue, are in the order in which they were enqueued; and all of them exist.
\<close>

definition fifo_inv :: "ConnectionPool \<Rightarrow> bool" where
  "fifo_inv s \<longleftrightarrow>
     (\<forall>req \<in> set (waitingQueue s). \<exists>p. resolve req = WrappedResolve p \<and> reject req = WrappedReject p)
   \<and> sorted_wrt (<) (resolved_ids (effects s) @ queued_ids (waitingQueue s))
   \<and> (\<forall>p \<in> set (resolved_ids (effects s) @ queued_ids (waitingQueue s)). p < length (promises s))"

subsection \<open>Example configurations\<close>

text \<open>A pool of at most one connection whose callers wait 100 milliseconds.\<close>

abbreviation (input) config_one :: PartialConnectionPoolConfig where
  "config_one \<equiv> \<lparr>maxConnections_opt = Some 1, minConnections_opt = None,
           connectionTimeout_opt = None, idleTimeout_opt = None, acquireTimeout_opt = Some 100\<rparr>"

text \<open>A pool of one to five connections that reclaims after one second of idleness.\<close>

abbreviation (input) config_idle :: PartialConnectionPoolConfig where
  "config_idle \<equiv> \<lparr>maxConnections_opt = Some 5, minConnections_opt = Some 1,
           connectionTimeout_opt = None, idleTimeout_opt = Some 1000, acquireTimeout_opt = None\<rparr>"

section \<open>Basic facts about the operations\<close>

lemma first_index_None: "first_index P xs = None \<longleftrightarrow> (\<forall>x \<in> set xs. \<not> P x)"
  by (induction xs) auto

lemma first_index_Some:
  "first_index P xs = Some i \<Longrightarrow> i < length xs \<and> P (xs ! i) \<and> (\<forall>j < i. \<not> P (xs ! j))"
proof (induction xs arbitrary: i)
  case Nil
  then show ?case by simp
next
  case (Cons x xs)
  show ?case
  proof (cases "P x")
    case True
    with Cons.prems show ?thesis by simp
  next
    case False
    with Cons.prems obtain k where k: "first_index P xs = Some k" "i = Suc k"
      by auto
    from Cons.IH [OF k(1)] False k(2) show ?thesis
      by (auto simp: less_Suc_eq_0_disj)
  qed
qed

lemma release_unknown:
  assumes "\<forall>c \<in> set (connections s). ref (client c) \<noteq> r"
  shows "release s r now = s"
proof -
  have "findConnectionByClient s r = None"
    using assms by (simp add: findConnectionByClient_def first_index_None)
  then show ?thesis by (simp add: release_def)
qed

lemma release_known:
  assumes "findConnectionByClient s r = Some i"
  shows "i < length (connections s) \<and> ref (client (connections s ! i)) = r
      \<and> (\<forall>j < i. ref (client (connections s ! j)) \<noteq> r)
      \<and> release s r now =
          processWaitingQueue
            (s\<lparr>connections := (connections s)
                 [i := (connections s ! i)\<lparr>inUse := False, lastUsed := now\<rparr>]\<rparr>) now"
  using first_index_Some [OF assms [unfolded findConnectionByClient_def]] assms
  by (simp add: release_def)

lemma processWaitingQueue_invariant:
  assumes "P s"
    and "\<And>s now request rest i. P s \<Longrightarrow> waitingQueue s = request # rest
           \<Longrightarrow> findAvailableConnection s now = Some i
           \<Longrightarrow> P (call_resolve (resolve request) (ref (client (connections s ! i)))
                  (s\<lparr>waitingQueue := rest,
                     connections := (connections s)
                       [i := (connections s ! i)\<lparr>inUse := True, lastUsed := now\<rparr>]\<rparr>))"
  shows "P (processWaitingQueue s now)"
  using assms(1)
proof (induction s now rule: processWaitingQueue.induct)
  case (1 s now)
  show ?case
  proof (cases "waitingQueue s")
    case Nil
    with "1.prems" show ?thesis by (simp add: processWaitingQueue.simps)
  next
    case (Cons request rest)
    show ?thesis
    proof (cases "findAvailableConnection s now")
      case None
      with Cons "1.prems" show ?thesis by (simp add: processWaitingQueue.simps)
    next
      case (Some i)
      have "P (processWaitingQueue
                 (call_resolve (resolve request) (ref (client (connections s ! i)))
                    (s\<lparr>waitingQueue := rest,
                       connections := (connections s)
                         [i := (connections s ! i)\<lparr>inUse := True, lastUsed := now\<rparr>]\<rparr>)) now)"
        by (rule "1.IH" [OF Cons Some refl refl]) (rule assms(2) [OF "1.prems" Cons Some])
      then show ?thesis
        using Cons Some by (subst processWaitingQueue.simps) (simp add: Let_def)
    qed
  qed
qed

lemma processWaitingQueue_fields [simp]:
  "poolConfig (processWaitingQueue s now) = poolConfig s"
  "isShuttingDown (processWaitingQueue s now) = isShuttingDown s"
  "cleanupInterval (processWaitingQueue s now) = cleanupInterval s"
  "creating (processWaitingQueue s now) = creating s"
  "nextRef (processWaitingQueue s now) = nextRef s"
  "length (connections (processWaitingQueue s now)) = length (connections s)"
  "length (promises (processWaitingQueue s now)) = length (promises s)"
  "length (acquireTimers (processWaitingQueue s now)) = length (acquireTimers s)"
  by (rule processWaitingQueue_invariant; simp)+

lemma rejectWaiting_invariant:
  assumes "P s"
    and "\<And>s request rest. P s \<Longrightarrow> waitingQueue s = request # rest
           \<Longrightarrow> P (call_reject (reject request) PoolShuttingDown (s\<lparr>waitingQueue := rest\<rparr>))"
  shows "P (rejectWaiting s)"
  using assms(1)
proof (induction s rule: rejectWaiting.induct)
  case (1 s)
  show ?case
  proof (cases "waitingQueue s")
    case Nil
    with "1.prems" show ?thesis by (simp add: rejectWaiting.simps)
  next
    case (Cons request rest)
    have "P (rejectWaiting (call_reject (reject request) PoolShuttingDown (s\<lparr>waitingQueue := rest\<rparr>)))"
      by (rule "1.IH" [OF Cons]) (rule assms(2) [OF "1.prems" Cons])
    then show ?thesis
      using Cons by (subst rejectWaiting.simps) simp
  qed
qed

lemma rejectWaiting_fields [simp]:
  "poolConfig (rejectWaiting s) = poolConfig s"
  "isShuttingDown (rejectWaiting s) = isShuttingDown s"
  "cleanupInterval (rejectWaiting s) = cleanupInterval s"
  "creating (rejectWaiting s) = creating s"
  "nextRef (rejectWaiting s) = nextRef s"
  "connections (rejectWaiting s) = connections s"
  "length (promises (rejectWaiting s)) = length (promises s)"
  "length (acquireTimers (rejectWaiting s)) = length (acquireTimers s)"
  by (rule rejectWaiting_invariant; simp)+

lemma rejectWaiting_queue [simp]: "waitingQueue (rejectWaiting s) = []"
proof (induction s rule: rejectWaiting.induct)
  case (1 s)
  then show ?case
    by (cases "waitingQueue s") (simp_all add: rejectWaiting.simps [of s])
qed

lemma processWaitingQueue_served:
  "\<exists>cs. length cs \<le> length (waitingQueue s)
      \<and> waitingQueue (processWaitingQueue s now) = drop (length cs) (waitingQueue s)
      \<and> effects (processWaitingQueue s now) =
          effects s @ map (\<lambda>(req, c). ResolveCalled (resolve req) c)
                        (zip (waitingQueue s) cs)
      \<and> (waitingQueue s \<noteq> [] \<and> findAvailableConnection s now \<noteq> None \<longrightarrow> cs \<noteq> [])"
proof (induction s now rule: processWaitingQueue.induct)
  case (1 s now)
  show ?case
  proof (cases "waitingQueue s")
    case Nil
    then have "processWaitingQueue s now = s"
      by (simp add: processWaitingQueue.simps)
    with Nil show ?thesis by (intro exI [of _ "[]"]) simp
  next
    case (Cons request rest)
    show ?thesis
    proof (cases "findAvailableConnection s now")
      case None
      with Cons have "processWaitingQueue s now = s"
        by (simp add: processWaitingQueue.simps)
      with None show ?thesis by (intro exI [of _ "[]"]) simp
    next
      case (Some i)
      define c where "c = ref (client (connections s ! i))"
      define s1 where "s1 = s\<lparr>waitingQueue := rest,
          connections := (connections s)[i := (connections s ! i)\<lparr>inUse := True, lastUsed := now\<rparr>]\<rparr>"
      define s2 where "s2 = call_resolve (resolve request) c s1"
      have eq: "processWaitingQueue s now = processWaitingQueue s2 now"
        using Cons Some by (subst processWaitingQueue.simps) (simp add: s2_def s1_def c_def Let_def)
      from "1.IH" [OF Cons Some refl refl]
      obtain cs where cs: "length cs \<le> length (waitingQueue s2)"
        "waitingQueue (processWaitingQueue s2 now) = drop (length cs) (waitingQueue s2)"
        "effects (processWaitingQueue s2 now) =
          effects s2 @ map (\<lambda>(req, c). ResolveCalled (resolve req) c) (zip (waitingQueue s2) cs)"
        unfolding s2_def s1_def c_def by blast
      have q2: "waitingQueue s2 = rest" by (simp add: s2_def s1_def)
      have e2: "effects s2 = effects s @ [ResolveCalled (resolve request) c]"
        by (simp add: s2_def s1_def)
      show ?thesis
        using cs Cons eq q2 e2 by (intro exI [of _ "c # cs"]) simp
    qed
  qed
qed

lemma closeIdle_fields [simp]:
  "poolConfig (closeIdle d c s) = poolConfig s"
  "isShuttingDown (closeIdle d c s) = isShuttingDown s"
  "cleanupInterval (closeIdle d c s) = cleanupInterval s"
  "waitingQueue (closeIdle d c s) = waitingQueue s"
  "promises (closeIdle d c s) = promises s"
  "acquireTimers (closeIdle d c s) = acquireTimers s"
  "creating (closeIdle d c s) = creating s"
  "nextRef (closeIdle d c s) = nextRef s"
  "effects (closeIdle d c s) = effects s @ [DisconnectCalled (ref (client c))]"
  by (simp_all add: closeIdle_def Let_def split: prod.splits sum.splits)

lemma fold_closeIdle_fields [simp]:
  "poolConfig (fold (closeIdle d) cs s) = poolConfig s"
  "isShuttingDown (fold (closeIdle d) cs s) = isShuttingDown s"
  "cleanupInterval (fold (closeIdle d) cs s) = cleanupInterval s"
  "waitingQueue (fold (closeIdle d) cs s) = waitingQueue s"
  "promises (fold (closeIdle d) cs s) = promises s"
  "acquireTimers (fold (closeIdle d) cs s) = acquireTimers s"
  "creating (fold (closeIdle d) cs s) = creating s"
  "nextRef (fold (closeIdle d) cs s) = nextRef s"
  "effects (fold (closeIdle d) cs s) = effects s @ map (\<lambda>c. DisconnectCalled (ref (client c))) cs"
  by (induction cs arbitrary: s; simp)+

lemma cleanupIdleConnections_fields [simp]:
  "poolConfig (cleanupIdleConnections s now d) = poolConfig s"
  "isShuttingDown (cleanupIdleConnections s now d) = isShuttingDown s"
  "cleanupInterval (cleanupIdleConnections s now d) = cleanupInterval s"
  "waitingQueue (cleanupIdleConnections s now d) = waitingQueue s"
  "promises (cleanupIdleConnections s now d) = promises s"
  "acquireTimers (cleanupIdleConnections s now d) = acquireTimers s"
  "creating (cleanupIdleConnections s now d) = creating s"
  "nextRef (cleanupIdleConnections s now d) = nextRef s"
  by (simp_all add: cleanupIdleConnections_def Let_def)

lemma waitForConnection_fields [simp]:
  "poolConfig (snd (waitForConnection s now)) = poolConfig s"
  "isShuttingDown (snd (waitForConnection s now)) = isShuttingDown s"
  "cleanupInterval (snd (waitForConnection s now)) = cleanupInterval s"
  "connections (snd (waitForConnection s now)) = connections s"
  "creating (snd (waitForConnection s now)) = creating s"
  "nextRef (snd (waitForConnection s now)) = nextRef s"
  "effects (snd (waitForConnection s now)) = effects s"
  "promises (snd (waitForConnection s now)) = promises s @ [Pending]"
  "acquireTimers (snd (waitForConnection s now)) = acquireTimers s @ [True]"
  "waitingQueue (snd (waitForConnection s now)) = waitingQueue s @
     [\<lparr>resolve = WrappedResolve (length (promises s)),
       reject = WrappedReject (length (promises s)), timestamp = now\<rparr>]"
  "fst (waitForConnection s now) = AwaitingQueue (length (promises s))"
  by (simp_all add: waitForConnection_def Let_def)

lemma createConnection_begin_fields [simp]:
  "poolConfig (snd (createConnection_begin s now k w)) = poolConfig s"
  "isShuttingDown (snd (createConnection_begin s now k w)) = isShuttingDown s"
  "cleanupInterval (snd (createConnection_begin s now k w)) = cleanupInterval s"
  "connections (snd (createConnection_begin s now k w)) = connections s"
  "waitingQueue (snd (createConnection_begin s now k w)) = waitingQueue s"
  "promises (snd (createConnection_begin s now k w)) = promises s"
  "acquireTimers (snd (createConnection_begin s now k w)) = acquireTimers s"
  "effects (snd (createConnection_begin s now k w)) = effects s"
  "fst (createConnection_begin s now k w) = nextRef s"
  by (simp_all add: createConnection_begin_def Let_def)

lemma createConnection_finish_fields [simp]:
  "poolConfig (snd (createConnection_finish s cr hs)) = poolConfig s"
  "isShuttingDown (snd (createConnection_finish s cr hs)) = isShuttingDown s"
  "cleanupInterval (snd (createConnection_finish s cr hs)) = cleanupInterval s"
  "waitingQueue (snd (createConnection_finish s cr hs)) = waitingQueue s"
  "promises (snd (createConnection_finish s cr hs)) = promises s"
  "acquireTimers (snd (createConnection_finish s cr hs)) = acquireTimers s"
  "creating (snd (createConnection_finish s cr hs)) = creating s"
  "nextRef (snd (createConnection_finish s cr hs)) = nextRef s"
  "effects (snd (createConnection_finish s cr hs)) = effects s"
  by (simp_all add: createConnection_finish_def Let_def split: prod.splits sum.splits)

lemma acquire_resume_fields [simp]:
  "poolConfig (snd (acquire_resume s cr hs)) = poolConfig s"
  "isShuttingDown (snd (acquire_resume s cr hs)) = isShuttingDown s"
  "cleanupInterval (snd (acquire_resume s cr hs)) = cleanupInterval s"
  "creating (snd (acquire_resume s cr hs)) = creating s"
  "nextRef (snd (acquire_resume s cr hs)) = nextRef s"
  "effects (snd (acquire_resume s cr hs)) = effects s"
  by (simp_all add: acquire_resume_def createConnection_finish_def waitForConnection_def Let_def
        split: prod.splits sum.splits)

lemma acquire_begin_fields [simp]:
  "poolConfig (snd (acquire_begin s now k)) = poolConfig s"
  "isShuttingDown (snd (acquire_begin s now k)) = isShuttingDown s"
  "cleanupInterval (snd (acquire_begin s now k)) = cleanupInterval s"
  "effects (snd (acquire_begin s now k)) = effects s"
  by (simp_all add: acquire_begin_def createConnection_begin_def waitForConnection_def Let_def
        split: option.splits prod.splits)

lemma connectSettles_fields [simp]:
  "poolConfig (connectSettles s r hs) = poolConfig s"
  "isShuttingDown (connectSettles s r hs) = isShuttingDown s"
  "cleanupInterval (connectSettles s r hs) = cleanupInterval s"
  "effects (connectSettles s r hs) = effects s"
  by (simp_all add: connectSettles_def Let_def split: option.splits caller.splits)

lemma release_fields [simp]:
  "poolConfig (release s r now) = poolConfig s"
  "isShuttingDown (release s r now) = isShuttingDown s"
  "cleanupInterval (release s r now) = cleanupInterval s"
  "creating (release s r now) = creating s"
  "nextRef (release s r now) = nextRef s"
  "length (connections (release s r now)) = length (connections s)"
  "length (promises (release s r now)) = length (promises s)"
  by (simp_all add: release_def split: option.splits)

lemma acquireTimerFires_fields [simp]:
  "poolConfig (acquireTimerFires p s) = poolConfig s"
  "isShuttingDown (acquireTimerFires p s) = isShuttingDown s"
  "cleanupInterval (acquireTimerFires p s) = cleanupInterval s"
  "connections (acquireTimerFires p s) = connections s"
  "creating (acquireTimerFires p s) = creating s"
  "nextRef (acquireTimerFires p s) = nextRef s"
  "length (promises (acquireTimerFires p s)) = length (promises s)"
  by (simp_all add: acquireTimerFires_def acquireTimeoutCallback_def Let_def split: option.splits)

lemma initialize_fields [simp]:
  "poolConfig (initialize s now ids) = poolConfig s"
  "isShuttingDown (initialize s now ids) = isShuttingDown s"
  "cleanupInterval (initialize s now ids) = cleanupInterval s"
  "connections (initialize s now ids) = connections s"
  "waitingQueue (initialize s now ids) = waitingQueue s"
  "promises (initialize s now ids) = promises s"
  "acquireTimers (initialize s now ids) = acquireTimers s"
  "effects (initialize s now ids) = effects s"
proof -
  have *: "\<And>P xs. (\<And>st i. P (snd (createConnection_begin st now (ids i) ByInitialize)) = P st)
      \<Longrightarrow> P (fold (\<lambda>i st. snd (createConnection_begin st now (ids i) ByInitialize)) xs s) = P s"
    subgoal for P xs by (induction xs arbitrary: s) simp_all
    done
  show "poolConfig (initialize s now ids) = poolConfig s"
    "isShuttingDown (initialize s now ids) = isShuttingDown s"
    "cleanupInterval (initialize s now ids) = cleanupInterval s"
    "connections (initialize s now ids) = connections s"
    "waitingQueue (initialize s now ids) = waitingQueue s"
    "promises (initialize s now ids) = promises s"
    "acquireTimers (initialize s now ids) = acquireTimers s"
    "effects (initialize s now ids) = effects s"
    unfolding initialize_def by (rule *; simp)+
qed

lemma clientExecutes_fields [simp]:
  "poolConfig (clientExecutes s r sql options now hs queryId q) = poolConfig s"
  "isShuttingDown (clientExecutes s r sql options now hs queryId q) = isShuttingDown s"
  "cleanupInterval (clientExecutes s r sql options now hs queryId q) = cleanupInterval s"
  "waitingQueue (clientExecutes s r sql options now hs queryId q) = waitingQueue s"
  "promises (clientExecutes s r sql options now hs queryId q) = promises s"
  "acquireTimers (clientExecutes s r sql options now hs queryId q) = acquireTimers s"
  "creating (clientExecutes s r sql options now hs queryId q) = creating s"
  "nextRef (clientExecutes s r sql options now hs queryId q) = nextRef s"
  "effects (clientExecutes s r sql options now hs queryId q) = effects s"
  "length (connections (clientExecutes s r sql options now hs queryId q)) = length (connections s)"
  by (simp_all add: clientExecutes_def)

lemma shutdown_fields [simp]:
  "poolConfig (shutdown s d) = poolConfig s"
  "isShuttingDown (shutdown s d)"
  "connections (shutdown s d) = []"
  "waitingQueue (shutdown s d) = []"
  "creating (shutdown s d) = creating s"
  "nextRef (shutdown s d) = nextRef s"
  "length (promises (shutdown s d)) = length (promises s)"
  "cleanupInterval (shutdown s d) \<noteq> Some Running"
  by (simp_all add: shutdown_def Let_def split: option.splits)

lemma step_poolConfig [simp]: "poolConfig (step s ev) = poolConfig s"
  by (cases ev) simp_all

lemma run_poolConfig [simp]: "poolConfig (run s evs) = poolConfig s"
  unfolding run_def by (induction evs arbitrary: s) simp_all

lemma step_isShuttingDown: "isShuttingDown s \<Longrightarrow> isShuttingDown (step s ev)"
  by (cases ev) simp_all

lemma run_isShuttingDown: "isShuttingDown s \<Longrightarrow> isShuttingDown (run s evs)"
  unfolding run_def by (induction evs arbitrary: s) (simp_all add: step_isShuttingDown)

lemma step_cleanupInterval:
  "cleanupInterval s \<noteq> Some Running \<Longrightarrow> cleanupInterval (step s ev) \<noteq> Some Running"
  by (cases ev) simp_all

lemma run_cleanupInterval:
  "cleanupInterval s \<noteq> Some Running \<Longrightarrow> cleanupInterval (run s evs) \<noteq> Some Running"
  unfolding run_def by (induction evs arbitrary: s) (simp_all add: step_cleanupInterval)

lemma rejectWaiting_effects:
  "effects (rejectWaiting s) =
     effects s @ map (\<lambda>req. RejectCalled (reject req) PoolShuttingDown) (waitingQueue s)"
proof (induction s rule: rejectWaiting.induct)
  case (1 s)
  show ?case
  proof (cases "waitingQueue s")
    case Nil
    then show ?thesis by (simp add: rejectWaiting.simps [of s])
  next
    case (Cons request rest)
    from "1.IH" [OF Cons] Cons show ?thesis
      by (subst rejectWaiting.simps) simp
  qed
qed

lemma settle_nth:
  "q < length (promises s) \<Longrightarrow>
   promises (settle p v s) ! q = (if q = p \<and> promises s ! q = Pending then v else promises s ! q)"
  by (auto simp: settle_def)

lemma call_reject_nth:
  "q < length (promises s) \<Longrightarrow>
   promises (call_reject g e s) ! q =
     (if q = rejecter_id g \<and> promises s ! q = Pending then Rejected e else promises s ! q)"
  by (cases g) (auto simp: settle_nth clearTimeout_def)

lemma call_resolve_nth:
  "q < length (promises s) \<Longrightarrow>
   promises (call_resolve f c s) ! q =
     (if q = resolver_id f \<and> promises s ! q = Pending then Fulfilled c else promises s ! q)"
  by (cases f) (auto simp: settle_nth clearTimeout_def)

lemma rejectWaiting_nth:
  "q < length (promises s) \<Longrightarrow>
   promises (rejectWaiting s) ! q =
     (if promises s ! q = Pending \<and> q \<in> rejecter_id ` reject ` set (waitingQueue s)
      then Rejected PoolShuttingDown else promises s ! q)"
proof (induction s rule: rejectWaiting.induct)
  case (1 s)
  show ?case
  proof (cases "waitingQueue s")
    case Nil
    then show ?thesis by (simp add: rejectWaiting.simps [of s])
  next
    case (Cons request rest)
    let ?s1 = "call_reject (reject request) PoolShuttingDown (s\<lparr>waitingQueue := rest\<rparr>)"
    have len: "q < length (promises ?s1)" using "1.prems" by simp
    have eq: "rejectWaiting s = rejectWaiting ?s1"
      using Cons by (subst rejectWaiting.simps) simp
    have nth1: "promises ?s1 ! q =
        (if q = rejecter_id (reject request) \<and> promises s ! q = Pending
         then Rejected PoolShuttingDown else promises s ! q)"
      using "1.prems" by (auto simp: call_reject_nth)
    show ?thesis
      using "1.IH" [OF Cons len] Cons nth1 by (auto simp: eq)
  qed
qed


subsection \<open>The queue is kept in the order of arrival\<close>

lemma resolved_ids_append [simp]:
  "resolved_ids (xs @ ys) = resolved_ids xs @ resolved_ids ys"
  by (induction xs rule: resolved_ids.induct) simp_all

lemma resolved_ids_rejects [simp]:
  "resolved_ids (map (\<lambda>req. RejectCalled (g req) e) q) = []"
  by (induction q) simp_all

lemma resolved_ids_disconnects [simp]:
  "resolved_ids (map (\<lambda>c. DisconnectCalled (h c)) cs) = []"
  by (induction cs) simp_all

lemma resolved_ids_served:
  "length cs \<le> length q \<Longrightarrow>
   resolved_ids (map (\<lambda>(req, c). ResolveCalled (resolve req) c) (zip q cs))
     = queued_ids (take (length cs) q)"
proof (induction cs arbitrary: q)
  case Nil
  then show ?case by (simp add: queued_ids_def)
next
  case (Cons c cs)
  then obtain req rest where q: "q = req # rest" by (cases q) auto
  with Cons show ?case by (simp add: queued_ids_def)
qed

lemma queued_ids_append [simp]: "queued_ids (xs @ ys) = queued_ids xs @ queued_ids ys"
  by (simp add: queued_ids_def)

lemma fifo_inv_constructor: "fifo_inv (constructor pc)"
  by (simp add: fifo_inv_def constructor_def queued_ids_def)

lemma fifo_inv_wait:
  assumes "fifo_inv s"
  shows "fifo_inv (snd (waitForConnection s now))"
  using assms
  by (auto simp: fifo_inv_def queued_ids_def sorted_wrt_append less_Suc_eq)

lemma fifo_inv_frame:
  assumes "fifo_inv s"
    and "waitingQueue s' = waitingQueue s"
    and "resolved_ids (effects s') = resolved_ids (effects s)"
    and "length (promises s') = length (promises s)"
  shows "fifo_inv s'"
  using assms by (simp add: fifo_inv_def)

lemma acquire_begin_queue:
  "(waitingQueue (snd (acquire_begin s now k)) = waitingQueue s
      \<and> promises (snd (acquire_begin s now k)) = promises s)
   \<or> snd (acquire_begin s now k) = snd (waitForConnection s now)"
  by (simp add: acquire_begin_def createConnection_begin_def Let_def split: option.splits)

lemma fifo_inv_acquire_begin:
  assumes "fifo_inv s"
  shows "fifo_inv (snd (acquire_begin s now k))"
  using acquire_begin_queue [of s now k]
proof (elim disjE conjE)
  assume "waitingQueue (snd (acquire_begin s now k)) = waitingQueue s"
    "promises (snd (acquire_begin s now k)) = promises s"
  then show ?thesis by - (rule fifo_inv_frame [OF assms], simp_all)
next
  assume "snd (acquire_begin s now k) = snd (waitForConnection s now)"
  then show ?thesis using fifo_inv_wait [OF assms] by simp
qed

lemma acquire_resume_queue:
  "(waitingQueue (snd (acquire_resume s cr hs)) = waitingQueue s
      \<and> promises (snd (acquire_resume s cr hs)) = promises s)
   \<or> snd (acquire_resume s cr hs) = snd (waitForConnection s (settled_at cr hs))"
  by (simp add: acquire_resume_def createConnection_finish_def Let_def
        split: prod.splits sum.splits)

lemma fifo_inv_acquire_resume:
  assumes "fifo_inv s"
  shows "fifo_inv (snd (acquire_resume s cr hs))"
  using acquire_resume_queue [of s cr hs]
proof (elim disjE conjE)
  assume "waitingQueue (snd (acquire_resume s cr hs)) = waitingQueue s"
    "promises (snd (acquire_resume s cr hs)) = promises s"
  then show ?thesis by - (rule fifo_inv_frame [OF assms], simp_all)
next
  assume "snd (acquire_resume s cr hs) = snd (waitForConnection s (settled_at cr hs))"
  then show ?thesis using fifo_inv_wait [OF assms] by simp
qed

lemma fifo_inv_connectSettles:
  assumes "fifo_inv s"
  shows "fifo_inv (connectSettles s r hs)"
proof (cases "find (\<lambda>cr. ref (cr_client cr) = r) (creating s)")
  case None
  then show ?thesis using assms by (simp add: connectSettles_def)
next
  case (Some cr)
  let ?s1 = "s\<lparr>creating := filter (\<lambda>x. ref (cr_client x) \<noteq> r) (creating s)\<rparr>"
  have s1: "fifo_inv ?s1" using assms by (simp add: fifo_inv_def)
  show ?thesis
  proof (cases "cr_caller cr")
    case ByAcquire
    with Some fifo_inv_acquire_resume [OF s1, of cr hs] show ?thesis
      by (simp add: connectSettles_def)
  next
    case ByInitialize
    have "fifo_inv (snd (createConnection_finish ?s1 cr hs))"
      by (rule fifo_inv_frame [OF s1]) simp_all
    with Some ByInitialize show ?thesis by (simp add: connectSettles_def)
  qed
qed

lemma fifo_inv_processWaitingQueue:
  assumes "fifo_inv s"
  shows "fifo_inv (processWaitingQueue s now)"
proof -
  obtain cs where cs: "length cs \<le> length (waitingQueue s)"
      "waitingQueue (processWaitingQueue s now) = drop (length cs) (waitingQueue s)"
      "effects (processWaitingQueue s now) =
          effects s @ map (\<lambda>(req, c). ResolveCalled (resolve req) c) (zip (waitingQueue s) cs)"
    using processWaitingQueue_served [of s now] by blast
  have ids: "resolved_ids (effects (processWaitingQueue s now))
               @ queued_ids (waitingQueue (processWaitingQueue s now))
           = resolved_ids (effects s) @ queued_ids (waitingQueue s)"
    using cs resolved_ids_served [OF cs(1)]
    by (simp add: queued_ids_def flip: map_append)
  have "set (waitingQueue (processWaitingQueue s now)) \<subseteq> set (waitingQueue s)"
    unfolding cs(2) by (rule set_drop_subset)
  then show ?thesis
    using assms unfolding fifo_inv_def ids by auto
qed

lemma fifo_inv_release:
  assumes "fifo_inv s"
  shows "fifo_inv (release s r now)"
proof (cases "findConnectionByClient s r")
  case None
  then show ?thesis using assms by (simp add: release_def)
next
  case (Some i)
  have "fifo_inv (s\<lparr>connections := (connections s)
                 [i := (connections s ! i)\<lparr>inUse := False, lastUsed := now\<rparr>]\<rparr>)"
    using assms by (simp add: fifo_inv_def)
  from fifo_inv_processWaitingQueue [OF this] Some show ?thesis
    by (simp add: release_def)
qed

lemma wrapped_no_index:
  assumes "\<forall>req \<in> set q. \<exists>p'. resolve req = WrappedResolve p' \<and> reject req = WrappedReject p'"
  shows "first_index (\<lambda>req. resolve req = PromiseResolve p) q = None"
  unfolding first_index_None using assms by fastforce

lemma acquireTimeoutCallback_wrapped:
  assumes "\<forall>req \<in> set (waitingQueue s). \<exists>p'. resolve req = WrappedResolve p' \<and> reject req = WrappedReject p'"
  shows "acquireTimeoutCallback p s =
           call_reject (PromiseReject p) (AcquireTimeout (acquireTimeout (poolConfig s))) s"
  using wrapped_no_index [OF assms] by (simp add: acquireTimeoutCallback_def)

lemma fifo_inv_acquireTimerFires:
  assumes "fifo_inv s"
  shows "fifo_inv (acquireTimerFires p s)"
proof (cases "p < length (acquireTimers s) \<and> acquireTimers s ! p")
  case False
  then show ?thesis using assms by (auto simp: acquireTimerFires_def)
next
  case True
  have w: "\<forall>req \<in> set (waitingQueue (clearTimeout p s)).
             \<exists>p'. resolve req = WrappedResolve p' \<and> reject req = WrappedReject p'"
    using assms by (simp add: fifo_inv_def)
  have "fifo_inv (call_reject (PromiseReject p)
          (AcquireTimeout (acquireTimeout (poolConfig (clearTimeout p s)))) (clearTimeout p s))"
    by (rule fifo_inv_frame [OF assms]) simp_all
  with True acquireTimeoutCallback_wrapped [OF w] show ?thesis
    by (simp add: acquireTimerFires_def)
qed

lemma fifo_inv_step:
  assumes "fifo_inv s"
  shows "fifo_inv (step s ev)"
proof (cases ev)
  case (Acquire now k)
  then show ?thesis using fifo_inv_acquire_begin [OF assms] by simp
next
  case (ConnectSettles r hs)
  then show ?thesis using fifo_inv_connectSettles [OF assms] by simp
next
  case (Release r now)
  then show ?thesis using fifo_inv_release [OF assms] by simp
next
  case (AcquireTimerFires p)
  then show ?thesis using fifo_inv_acquireTimerFires [OF assms] by simp
next
  case (CleanupTick now d)
  have "fifo_inv (cleanupIdleConnections s now d)"
    by (rule fifo_inv_frame [OF assms]) (simp_all add: cleanupIdleConnections_def Let_def)
  with CleanupTick assms show ?thesis by simp
next
  case (Shutdown d)
  have "resolved_ids (effects (shutdown s d)) = resolved_ids (effects s)"
    by (simp add: shutdown_def Let_def rejectWaiting_effects split: option.splits)
  moreover have "sorted_wrt (<) (resolved_ids (effects s))"
    "\<forall>p \<in> set (resolved_ids (effects s)). p < length (promises s)"
    using assms by (simp_all add: fifo_inv_def sorted_wrt_append)
  ultimately have "fifo_inv (shutdown s d)"
    by (simp add: fifo_inv_def queued_ids_def)
  with Shutdown show ?thesis by simp
next
  case (Initialize now ids)
  have "fifo_inv (initialize s now ids)"
    by (rule fifo_inv_frame [OF assms]) simp_all
  with Initialize show ?thesis by simp
next
  case (Execute r sql options now hs queryId q)
  have "fifo_inv (clientExecutes s r sql options now hs queryId q)"
    by (rule fifo_inv_frame [OF assms]) simp_all
  with Execute show ?thesis by simp
qed

lemma fifo_inv_run:
  assumes "fifo_inv s"
  shows "fifo_inv (run s evs)"
  using assms unfolding run_def
  by (induction evs arbitrary: s) (simp_all add: fifo_inv_step)

lemma release_served:
  "\<exists>cs. length cs \<le> length (waitingQueue s)
      \<and> waitingQueue (release s r now) = drop (length cs) (waitingQueue s)
      \<and> effects (release s r now) =
          effects s @ map (\<lambda>(req, c). ResolveCalled (resolve req) c) (zip (waitingQueue s) cs)
      \<and> (waitingQueue s \<noteq> []
           \<and> (\<exists>i. findConnectionByClient s r = Some i \<and> isConnected (client (connections s ! i)) now)
         \<longrightarrow> cs \<noteq> [])"
proof (cases "findConnectionByClient s r")
  case None
  then have "release s r now = s" by (simp add: release_def)
  with None show ?thesis by (intro exI [of _ "[]"]) simp
next
  case (Some i)
  define s1 where "s1 = s\<lparr>connections := (connections s)
                 [i := (connections s ! i)\<lparr>inUse := False, lastUsed := now\<rparr>]\<rparr>"
  have rel: "release s r now = processWaitingQueue s1 now"
    using Some by (simp add: release_def s1_def)
  have i: "i < length (connections s)"
    using first_index_Some [OF Some [unfolded findConnectionByClient_def]] by simp
  have avail: "findAvailableConnection s1 now \<noteq> None"
    if "isConnected (client (connections s ! i)) now"
  proof -
    have "connections s1 ! i \<in> set (connections s1)"
      using i by (intro nth_mem) (simp add: s1_def)
    moreover have "\<not> inUse (connections s1 ! i) \<and> isConnected (client (connections s1 ! i)) now"
      using i that by (simp add: s1_def)
    ultimately show ?thesis
      unfolding findAvailableConnection_def first_index_None by blast
  qed
  obtain cs where cs: "length cs \<le> length (waitingQueue s1)"
      "waitingQueue (processWaitingQueue s1 now) = drop (length cs) (waitingQueue s1)"
      "effects (processWaitingQueue s1 now) =
          effects s1 @ map (\<lambda>(req, c). ResolveCalled (resolve req) c) (zip (waitingQueue s1) cs)"
      "waitingQueue s1 \<noteq> [] \<and> findAvailableConnection s1 now \<noteq> None \<longrightarrow> cs \<noteq> []"
    using processWaitingQueue_served [of s1 now] by blast
  have q1: "waitingQueue s1 = waitingQueue s" and e1: "effects s1 = effects s"
    by (simp_all add: s1_def)
  show ?thesis
    using cs avail Some unfolding rel q1 e1 by (intro exI [of _ cs]) auto
qed

lemma release_rejects_nobody:
  assumes "RejectCalled g e \<in> set (effects (release s r now))"
  shows "RejectCalled g e \<in> set (effects s)"
proof -
  obtain cs where "effects (release s r now) =
      effects s @ map (\<lambda>(req, c). ResolveCalled (resolve req) c) (zip (waitingQueue s) cs)"
    using release_served [of s r now] by blast
  with assms show ?thesis by auto
qed

subsection \<open>How the promise of a waiting caller can settle\<close>

lemma waiter_settlement_simps [simp]:
  "waiter_settlement cfg Pending"
  "waiter_settlement cfg (Fulfilled c)"
  "waiter_settlement cfg (Rejected PoolShuttingDown)"
  "waiter_settlement cfg (Rejected (AcquireTimeout (acquireTimeout cfg)))"
  by (simp_all add: waiter_settlement_def)












subsection \<open>Connection count\<close>

lemma length_map_set: "length (map_set k v xs) \<le> Suc (length xs)"
  by (induction xs) simp_all

lemma acquire_resume_connections:
  "length (connections (snd (acquire_resume s cr hs))) \<le> Suc (length (connections s))"
  using length_map_set [of "cr_id cr" _ "connections s"]
  by (auto simp: acquire_resume_def createConnection_finish_def waitForConnection_def Let_def
        split: prod.splits sum.splits)

lemma acquire_begin_creates_below_max:
  assumes "fst (acquire_begin s now k) = AwaitingConnect r"
  shows "int (length (connections s)) < maxConnections (poolConfig s)"
  using assms
  by (auto simp: acquire_begin_def waitForConnection_def createConnection_begin_def Let_def
        split: if_splits option.splits)

lemma acquire_poolConfig [simp]: "poolConfig (snd (acquire s now k hs)) = poolConfig s"
proof (cases "acquire_begin s now k")
  case (Pair out s1)
  have "poolConfig s1 = poolConfig s"
    using acquire_begin_fields(1) [of s now k] Pair by simp
  with Pair show ?thesis
    by (cases out) (simp_all add: acquire_def)
qed

lemma acquire_capacity:
  assumes "int (length (connections s)) \<le> maxConnections (poolConfig s)"
  shows "int (length (connections (snd (acquire s now k hs)))) \<le> maxConnections (poolConfig s)"
proof (cases "acquire_begin s now k")
  case (Pair out s1)
  show ?thesis
  proof (cases "\<exists>r. out = AwaitingConnect r")
    case True
    then obtain r where out: "out = AwaitingConnect r" by blast
    have below: "int (length (connections s)) < maxConnections (poolConfig s)"
      using acquire_begin_creates_below_max [of s now k r] Pair out by simp
    have c1: "connections s1 = connections s"
      using Pair out
      by (auto simp: acquire_begin_def waitForConnection_def createConnection_begin_def Let_def
            split: if_splits option.splits)
    have "acquire s now k hs =
            acquire_resume (s1\<lparr>creating := butlast (creating s1)\<rparr>) (last (creating s1)) hs"
      using Pair out by (simp add: acquire_def)
    with acquire_resume_connections
           [of "s1\<lparr>creating := butlast (creating s1)\<rparr>" "last (creating s1)" hs] c1 below
    show ?thesis by simp
  next
    case False
    then have same: "acquire s now k hs = (out, s1)"
      using Pair by (cases out) (simp_all add: acquire_def)
    have "length (connections s1) = length (connections s)"
      using Pair False
      by (auto simp: acquire_begin_def waitForConnection_def createConnection_begin_def Let_def
            split: if_splits option.splits)
    with same assms show ?thesis by simp
  qed
qed

lemma perform_capacity:
  assumes "int (length (connections s)) \<le> maxConnections (poolConfig s)"
  shows "int (length (connections (perform s c))) \<le> maxConnections (poolConfig (perform s c))
       \<and> poolConfig (perform s c) = poolConfig s"
  using assms acquire_capacity [OF assms] by (cases c) simp_all

lemma foldl_perform_capacity:
  assumes "int (length (connections s)) \<le> maxConnections (poolConfig s)"
  shows "int (length (connections (foldl perform s calls))) \<le> maxConnections (poolConfig s)
       \<and> poolConfig (foldl perform s calls) = poolConfig s"
  using assms
proof (induction calls arbitrary: s)
  case Nil
  then show ?case by simp
next
  case (Cons c calls)
  from perform_capacity [OF Cons.prems, of c]
  have step: "int (length (connections (perform s c))) \<le> maxConnections (poolConfig (perform s c))"
    and cfg: "poolConfig (perform s c) = poolConfig s" by blast+
  from Cons.IH [OF step] show ?case by (simp add: cfg)
qed

text \<open>The defining equations, for evaluating the operations on a concrete pool.\<close>

lemmas pool_eval =
  run_def constructor_def or_default_def acquire_begin_def acquire_resume_def
  createConnection_begin_def createConnection_finish_def settled_at_def
  connectSettles_def waitForConnection_def acquireTimerFires_def acquireTimeoutCallback_def
  findAvailableConnection_def findConnectionByClient_def release_def
  connect_def establishConnection_def setTimeout_delay_def isConnected_def
  isConnectionHealthy_def
  new_SnowflakeClient_def settle_def clearTimeout_def
  cleanupIdleConnections_def closeIdle_def disconnect_def map_delete_def shutdown_def
  initialize_def clientExecutes_def
  processWaitingQueue.simps rejectWaiting.simps Let_def

section \<open>Construction\<close>

text \<open>
  C7 (as stated): every successfully constructed pool has
  \<open>maxConnections \<ge> minConnections\<close> and \<open>minConnections \<ge> 0\<close>.  The constructor has no
  check and no failing branch: given only \<open>maxConnections = 1\<close> it builds a pool whose
  \<open>minConnections\<close> is the default 2.
\<close>

theorem constructor_bounds_counterexample:
  "\<not> (maxConnections (poolConfig (constructor
          \<lparr>maxConnections_opt = Some 1, minConnections_opt = None,
           connectionTimeout_opt = None, idleTimeout_opt = None, acquireTimeout_opt = None\<rparr>))
        \<ge> minConnections (poolConfig (constructor
          \<lparr>maxConnections_opt = Some 1, minConnections_opt = None,
           connectionTimeout_opt = None, idleTimeout_opt = None, acquireTimeout_opt = None\<rparr>))
      \<and> minConnections (poolConfig (constructor
          \<lparr>maxConnections_opt = Some 1, minConnections_opt = None,
           connectionTimeout_opt = None, idleTimeout_opt = None, acquireTimeout_opt = None\<rparr>)) \<ge> 0)"
  by (simp add: constructor_def or_default_def)

text \<open>
  C7 (amended): construction validates nothing and always yields a pool.  A bound that
  is absent or 0 is replaced by its default (10 for \<open>maxConnections\<close>, 2 for
  \<open>minConnections\<close>); any other number is kept as given, whatever its sign and whatever
  the other bound is.  The pool starts empty, not shutting down, with its idle
  reclamation timer running.
\<close>

theorem constructor_defaults:
  "maxConnections (poolConfig (constructor pc)) =
     (if maxConnections_opt pc = None \<or> maxConnections_opt pc = Some 0 then 10
      else the (maxConnections_opt pc))
   \<and> minConnections (poolConfig (constructor pc)) =
     (if minConnections_opt pc = None \<or> minConnections_opt pc = Some 0 then 2
      else the (minConnections_opt pc))
   \<and> connections (constructor pc) = []
   \<and> waitingQueue (constructor pc) = []
   \<and> \<not> isShuttingDown (constructor pc)
   \<and> cleanupInterval (constructor pc) = Some Running"
  by (auto simp: constructor_def or_default_def split: option.splits)

section \<open>Query execution against a deadline\<close>

lemma setTimeout_delay_in_range:
  assumes "1 \<le> t" and "t \<le> 2147483647"
  shows "setTimeout_delay t = t"
  using assms by (simp add: setTimeout_delay_def)

lemma connect_ok_connection:
  assumes "connect c now hs = (Inr u, c1, t1)"
  shows "connection c1"
  using assms
  by (auto simp: connect_def establishConnection_def split: if_splits handshake.splits)

lemma connect_healthy_now:
  assumes "isConnected c now"
  shows "connect c now hs = (Inr (), c\<lparr>client_lastUsed := now\<rparr>, now)"
  using assms by (simp add: connect_def isConnected_def)

lemma race_timeout:
  assumes "\<not> completes_within q (setTimeout_delay t)"
  shows "race q t start = (Inl (QueryTimeout t), start + setTimeout_delay t)"
  using assms by (cases q) (simp_all add: race_def completes_within_def Let_def)

lemma execute_connected:
  assumes "connect c now hs = (Inr (), c1, t1)"
  shows "execute c sql options now hs queryId q =
     (fst (race q (effective_timeout options) t1),
      c1\<lparr>activeQueries := removeAll queryId (List.insert queryId (activeQueries c1)),
          client_lastUsed := t1\<rparr>,
      snd (race q (effective_timeout options) t1))"
  using assms connect_ok_connection [OF assms]
  by (simp add: execute_def Let_def split: prod.splits)

lemma execute_connect_fails:
  assumes "connect c now hs = (Inl e, c1, t1)"
  shows "execute c sql options now hs queryId q = (Inl e, c1, t1)"
  using assms by (simp add: execute_def)

text \<open>
  C6 (as stated): every \<^verbatim>\<open>execute\<close> call whose query has not completed within the given
  timeout fails with the timeout error naming it, at the deadline.  \<^verbatim>\<open>execute\<close> first awaits
  \<^verbatim>\<open>connect\<close>, outside the race: on a client that is not connected, with a handshake that
  never calls back and a timeout of 100 milliseconds, the call fails with the connection
  timeout, 10000 milliseconds after the call.
\<close>

theorem execute_timeout_counterexample:
  "fst (execute \<lparr>ref = 0, connection = False, client_lastUsed = 0, activeQueries = []\<rparr>
          ''select 1'' \<lparr>timeout = Some 100\<rparr> 0 HandshakeHangs ''q1'' NeverCompletes)
     = Inl ConnectionTimeout
   \<and> snd (snd (execute \<lparr>ref = 0, connection = False, client_lastUsed = 0, activeQueries = []\<rparr>
          ''select 1'' \<lparr>timeout = Some 100\<rparr> 0 HandshakeHangs ''q1'' NeverCompletes)) = 10000
   \<and> \<not> (fst (execute \<lparr>ref = 0, connection = False, client_lastUsed = 0, activeQueries = []\<rparr>
          ''select 1'' \<lparr>timeout = Some 100\<rparr> 0 HandshakeHangs ''q1'' NeverCompletes)
           = Inl (QueryTimeout 100)
         \<and> snd (snd (execute \<lparr>ref = 0, connection = False, client_lastUsed = 0, activeQueries = []\<rparr>
          ''select 1'' \<lparr>timeout = Some 100\<rparr> 0 HandshakeHangs ''q1'' NeverCompletes)) = 0 + 100)"
  by (simp add: execute_def connect_def establishConnection_def setTimeout_delay_def)

text \<open>
  C6 (amended): \<^verbatim>\<open>execute(sql, {timeout: t})\<close> with \<open>1 \<le> t \<le> 2147483647\<close> and a query that
  does not call back within \<open>t\<close> milliseconds of the start of the race.  If the \<^verbatim>\<open>connect\<close>
  step succeeds, at time \<open>t1\<close>, the call fails with the timeout error that names \<open>t\<close> and
  control returns at \<open>t1 + t\<close>, whenever or whether the driver calls back.  If the
  \<^verbatim>\<open>connect\<close> step fails, the call fails with the error of \<^verbatim>\<open>connect\<close>, when \<^verbatim>\<open>connect\<close> fails.
  On a client that is connected and healthy the \<^verbatim>\<open>connect\<close> step succeeds at once, so the
  call fails with the timeout error \<open>t\<close> milliseconds after it was made.
\<close>

theorem execute_timeout:
  assumes "timeout options = Some t" and "1 \<le> t" and "t \<le> 2147483647"
    and "\<not> completes_within q t"
  shows "(\<forall>c1 t1. connect c now hs = (Inr (), c1, t1) \<longrightarrow>
            fst (execute c sql options now hs queryId q) = Inl (QueryTimeout t)
          \<and> snd (snd (execute c sql options now hs queryId q)) = t1 + t)
       \<and> (\<forall>e c1 t1. connect c now hs = (Inl e, c1, t1) \<longrightarrow>
            execute c sql options now hs queryId q = (Inl e, c1, t1))
       \<and> (isConnected c now \<longrightarrow>
            fst (execute c sql options now hs queryId q) = Inl (QueryTimeout t)
          \<and> snd (snd (execute c sql options now hs queryId q)) = now + t)"
proof -
  have t: "effective_timeout options = t"
    using assms(1,2) by (simp add: effective_timeout_def)
  have d: "setTimeout_delay t = t"
    using assms(2,3) by (rule setTimeout_delay_in_range)
  have r: "race q t start = (Inl (QueryTimeout t), start + t)" for start
    using race_timeout [of q t start] assms(4) by (simp add: d)
  have ok: "fst (execute c sql options now hs queryId q) = Inl (QueryTimeout t)
          \<and> snd (snd (execute c sql options now hs queryId q)) = t1 + t"
    if "connect c now hs = (Inr (), c1, t1)" for c1 t1
    using execute_connected [OF that] by (simp add: t r)
  have healthy: "fst (execute c sql options now hs queryId q) = Inl (QueryTimeout t)
          \<and> snd (snd (execute c sql options now hs queryId q)) = now + t"
    if "isConnected c now"
    using ok [OF connect_healthy_now [OF that]] .
  show ?thesis
    using ok healthy execute_connect_fails by blast
qed

theorem execute_timeout_witness:
  "fst (execute \<lparr>ref = 0, connection = True, client_lastUsed = 0, activeQueries = []\<rparr>
          ''select 1'' \<lparr>timeout = Some 100\<rparr> 5 HandshakeHangs ''q1'' NeverCompletes)
     = Inl (QueryTimeout 100)
   \<and> snd (snd (execute \<lparr>ref = 0, connection = True, client_lastUsed = 0, activeQueries = []\<rparr>
          ''select 1'' \<lparr>timeout = Some 100\<rparr> 5 HandshakeHangs ''q1'' NeverCompletes)) = 105
   \<and> snd (snd (execute \<lparr>ref = 0, connection = False, client_lastUsed = 0, activeQueries = []\<rparr>
          ''select 1'' \<lparr>timeout = Some 100\<rparr> 5 (HandshakeOk 20) ''q1'' (Completes 500 None [])))
       = 125"
proof -
  let ?c = "\<lparr>ref = 0, connection = True, client_lastUsed = 0, activeQueries = []\<rparr>"
  let ?n = "\<lparr>ref = 0, connection = False, client_lastUsed = 0, activeQueries = []\<rparr>"
  have h1: "timeout \<lparr>timeout = Some 100\<rparr> = Some 100" by simp
  have h2: "(1::int) \<le> 100" and h3: "(100::int) \<le> 2147483647" by simp_all
  have h4: "\<not> completes_within NeverCompletes 100"
    and h5: "\<not> completes_within (Completes 500 None []) 100"
    by (simp_all add: completes_within_def)
  have healthy: "isConnected ?c 5"
    by (simp add: isConnected_def isConnectionHealthy_def)
  have conn: "connect ?n 5 (HandshakeOk 20)
                = (Inr (), ?n\<lparr>connection := True, client_lastUsed := 25\<rparr>, 25)"
    by (simp add: connect_def establishConnection_def setTimeout_delay_def)
  from execute_timeout [OF h1 h2 h3 h4, of ?c 5 HandshakeHangs "''select 1''" "''q1''"] healthy
  have a: "fst (execute ?c ''select 1'' \<lparr>timeout = Some 100\<rparr> 5 HandshakeHangs ''q1'' NeverCompletes)
             = Inl (QueryTimeout 100)
         \<and> snd (snd (execute ?c ''select 1'' \<lparr>timeout = Some 100\<rparr> 5 HandshakeHangs ''q1''
                        NeverCompletes)) = 5 + 100"
    by blast
  from execute_timeout [OF h1 h2 h3 h5, of ?n 5 "HandshakeOk 20" "''select 1''" "''q1''"] conn
  have b: "snd (snd (execute ?n ''select 1'' \<lparr>timeout = Some 100\<rparr> 5 (HandshakeOk 20) ''q1''
                        (Completes 500 None []))) = 25 + 100"
    by blast
  from a b show ?thesis by simp
qed

text \<open>
  A timeout that is not 0 and lies outside \<open>1 \<dots> 2147483647\<close> is raced as a timer of one
  millisecond, and the error still names the timeout given.
\<close>

lemma execute_timeout_out_of_range:
  assumes "timeout options = Some t" and "t \<noteq> 0" and "t < 1 \<or> t > 2147483647"
    and "connect c now hs = (Inr (), c1, t1)"
    and "\<not> completes_within q 1"
  shows "fst (execute c sql options now hs queryId q) = Inl (QueryTimeout t)
       \<and> snd (snd (execute c sql options now hs queryId q)) = t1 + 1"
proof -
  have t: "effective_timeout options = t"
    using assms(1,2) by (simp add: effective_timeout_def)
  have d: "setTimeout_delay t = 1"
    using assms(3) by (auto simp: setTimeout_delay_def)
  show ?thesis
    using execute_connected [OF assms(4)] race_timeout [of q t t1] assms(5)
    by (simp add: t d)
qed

text \<open>
  C10 (as stated): every \<^verbatim>\<open>execute\<close> call without an explicit positive timeout fails with
  the timeout error after 30000 milliseconds.  A negative timeout is truthy in
  \<^verbatim>\<open>options.timeout || this.defaultTimeout\<close> and is used as it is: with the timeout \<open>-5\<close>, on
  a connected client, the call fails after one millisecond with an error that names
  \<open>-5\<close>.
\<close>

theorem execute_default_timeout_counterexample:
  "fst (execute \<lparr>ref = 0, connection = True, client_lastUsed = 0, activeQueries = []\<rparr>
          ''select 1'' \<lparr>timeout = Some (- 5)\<rparr> 5 HandshakeHangs ''q1'' NeverCompletes)
     = Inl (QueryTimeout (- 5))
   \<and> snd (snd (execute \<lparr>ref = 0, connection = True, client_lastUsed = 0, activeQueries = []\<rparr>
          ''select 1'' \<lparr>timeout = Some (- 5)\<rparr> 5 HandshakeHangs ''q1'' NeverCompletes)) = 6
   \<and> \<not> (fst (execute \<lparr>ref = 0, connection = True, client_lastUsed = 0, activeQueries = []\<rparr>
          ''select 1'' \<lparr>timeout = Some (- 5)\<rparr> 5 HandshakeHangs ''q1'' NeverCompletes)
           = Inl (QueryTimeout 30000)
         \<and> snd (snd (execute \<lparr>ref = 0, connection = True, client_lastUsed = 0, activeQueries = []\<rparr>
          ''select 1'' \<lparr>timeout = Some (- 5)\<rparr> 5 HandshakeHangs ''q1'' NeverCompletes))
           = 5 + 30000)"
  by (simp add: execute_def connect_def isConnectionHealthy_def effective_timeout_def race_def
        setTimeout_delay_def)

text \<open>
  C10 (amended): \<^verbatim>\<open>execute\<close> called without a timeout, or with the timeout 0, races the
  query against a timer of 30000 milliseconds.  If the \<^verbatim>\<open>connect\<close> step succeeds, at time
  \<open>t1\<close>, the call settles as that race does, so if the driver has not called back within
  30000 milliseconds the call fails with the timeout error naming 30000, at
  \<open>t1 + 30000\<close>.  If the \<^verbatim>\<open>connect\<close> step fails, the call fails with the error of
  \<^verbatim>\<open>connect\<close>, when \<^verbatim>\<open>connect\<close> fails.
\<close>

theorem execute_default_timeout:
  assumes "timeout options = None \<or> timeout options = Some 0"
  shows "effective_timeout options = 30000
       \<and> (\<forall>c1 t1. connect c now hs = (Inr (), c1, t1) \<longrightarrow>
            fst (execute c sql options now hs queryId q) = fst (race q 30000 t1)
          \<and> snd (snd (execute c sql options now hs queryId q)) = snd (race q 30000 t1)
          \<and> (\<not> completes_within q 30000 \<longrightarrow>
               fst (execute c sql options now hs queryId q) = Inl (QueryTimeout 30000)
             \<and> snd (snd (execute c sql options now hs queryId q)) = t1 + 30000))
       \<and> (\<forall>e c1 t1. connect c now hs = (Inl e, c1, t1) \<longrightarrow>
            execute c sql options now hs queryId q = (Inl e, c1, t1))"
proof -
  have t: "effective_timeout options = 30000"
    using assms by (auto simp: effective_timeout_def defaultTimeout_def)
  have d: "setTimeout_delay 30000 = 30000"
    by (simp add: setTimeout_delay_def)
  have ok: "fst (execute c sql options now hs queryId q) = fst (race q 30000 t1)
          \<and> snd (snd (execute c sql options now hs queryId q)) = snd (race q 30000 t1)
          \<and> (\<not> completes_within q 30000 \<longrightarrow>
               fst (execute c sql options now hs queryId q) = Inl (QueryTimeout 30000)
             \<and> snd (snd (execute c sql options now hs queryId q)) = t1 + 30000)"
    if "connect c now hs = (Inr (), c1, t1)" for c1 t1
    using execute_connected [OF that] race_timeout [of q 30000 t1] by (simp add: t d)
  show ?thesis
    using t ok execute_connect_fails by blast
qed

theorem execute_default_timeout_witness:
  "fst (execute \<lparr>ref = 0, connection = True, client_lastUsed = 0, activeQueries = []\<rparr>
          ''select 1'' \<lparr>timeout = None\<rparr> 5 HandshakeHangs ''q1'' NeverCompletes)
     = Inl (QueryTimeout 30000)
   \<and> snd (snd (execute \<lparr>ref = 0, connection = True, client_lastUsed = 0, activeQueries = []\<rparr>
          ''select 1'' \<lparr>timeout = Some 0\<rparr> 5 HandshakeHangs ''q1'' NeverCompletes)) = 30005"
proof -
  let ?c = "\<lparr>ref = 0, connection = True, client_lastUsed = 0, activeQueries = []\<rparr>"
  have h3: "connect ?c 5 HandshakeHangs = (Inr (), ?c\<lparr>client_lastUsed := 5\<rparr>, 5)"
    by (simp add: connect_def isConnectionHealthy_def)
  have h4: "\<not> completes_within NeverCompletes 30000" by (simp add: completes_within_def)
  have a: "timeout \<lparr>timeout = None\<rparr> = None \<or> timeout \<lparr>timeout = None\<rparr> = Some 0" by simp
  have b: "timeout \<lparr>timeout = Some 0\<rparr> = None \<or> timeout \<lparr>timeout = Some 0\<rparr> = Some 0" by simp
  from execute_default_timeout [OF a, of ?c 5 HandshakeHangs "''select 1''" "''q1''" NeverCompletes]
    h3 h4
  have x: "fst (execute ?c ''select 1'' \<lparr>timeout = None\<rparr> 5 HandshakeHangs ''q1'' NeverCompletes)
             = Inl (QueryTimeout 30000)"
    by blast
  from execute_default_timeout [OF b, of ?c 5 HandshakeHangs "''select 1''" "''q1''" NeverCompletes]
    h3 h4
  have y: "snd (snd (execute ?c ''select 1'' \<lparr>timeout = Some 0\<rparr> 5 HandshakeHangs ''q1''
                       NeverCompletes)) = 5 + 30000"
    by blast
  from x y show ?thesis by simp
qed

section \<open>Shutdown\<close>

text \<open>
  C5: in the state that \<^verbatim>\<open>shutdown\<close> leaves, the pool is marked shutting down, its
  connection set and its wait queue are empty and the idle-reclamation timer is not
  running; the \<^verbatim>\<open>reject\<close> closure of every request that was queued has been called with
  the shutdown error, which rejects its promise if that was still pending; and after any
  further events, \<^verbatim>\<open>acquire\<close> throws the shutdown error at once, leaving the pool as it
  is, and a reclamation tick does nothing.
\<close>

theorem shutdown_finality:
  "isShuttingDown (shutdown s d)
   \<and> connections (shutdown s d) = []
   \<and> waitingQueue (shutdown s d) = []
   \<and> cleanupInterval (shutdown s d) \<noteq> Some Running
   \<and> (\<forall>req \<in> set (waitingQueue s).
        RejectCalled (reject req) PoolShuttingDown \<in> set (effects (shutdown s d))
      \<and> (rejecter_id (reject req) < length (promises s)
           \<and> promises s ! rejecter_id (reject req) = Pending
         \<longrightarrow> promises (shutdown s d) ! rejecter_id (reject req) = Rejected PoolShuttingDown))
   \<and> (\<forall>evs now k. acquire_begin (run (shutdown s d) evs) now k
                     = (Threw PoolShuttingDown, run (shutdown s d) evs))
   \<and> (\<forall>evs now d'. step (run (shutdown s d) evs) (CleanupTick now d') = run (shutdown s d) evs)"
proof -
  have eff: "\<forall>req \<in> set (waitingQueue s).
        RejectCalled (reject req) PoolShuttingDown \<in> set (effects (shutdown s d))"
    by (auto simp: shutdown_def Let_def rejectWaiting_effects split: option.splits)
  have prom: "\<forall>req \<in> set (waitingQueue s).
        rejecter_id (reject req) < length (promises s)
           \<and> promises s ! rejecter_id (reject req) = Pending
         \<longrightarrow> promises (shutdown s d) ! rejecter_id (reject req) = Rejected PoolShuttingDown"
    by (auto simp: shutdown_def Let_def rejectWaiting_nth split: option.splits)
  have acq: "\<forall>evs now k. acquire_begin (run (shutdown s d) evs) now k
                     = (Threw PoolShuttingDown, run (shutdown s d) evs)"
    using run_isShuttingDown [of "shutdown s d"] by (simp add: acquire_begin_def)
  have tick: "\<forall>evs now d'. step (run (shutdown s d) evs) (CleanupTick now d') = run (shutdown s d) evs"
    using run_cleanupInterval [of "shutdown s d"] by simp
  show ?thesis using eff prom acq tick by simp
qed

theorem shutdown_finality_witness:
  "isShuttingDown (shutdown (run (constructor config_one)
       [Acquire 0 ''a'', ConnectSettles 0 (HandshakeOk 5), Acquire 10 ''b'']) (\<lambda>r. True))
   \<and> RejectCalled (WrappedReject 0) PoolShuttingDown
       \<in> set (effects (shutdown (run (constructor config_one)
           [Acquire 0 ''a'', ConnectSettles 0 (HandshakeOk 5), Acquire 10 ''b'']) (\<lambda>r. True)))
   \<and> promises (shutdown (run (constructor config_one)
       [Acquire 0 ''a'', ConnectSettles 0 (HandshakeOk 5), Acquire 10 ''b'']) (\<lambda>r. True)) ! 0
       = Rejected PoolShuttingDown
   \<and> fst (acquire_begin (run (shutdown (run (constructor config_one)
       [Acquire 0 ''a'', ConnectSettles 0 (HandshakeOk 5), Acquire 10 ''b'']) (\<lambda>r. True))
         [Release 0 20]) 30 ''c'') = Threw PoolShuttingDown"
proof -
  define s where "s = run (constructor config_one)
       [Acquire 0 ''a'', ConnectSettles 0 (HandshakeOk 5), Acquire 10 ''b'']"
  have q: "waitingQueue s = [\<lparr>resolve = WrappedResolve 0, reject = WrappedReject 0, timestamp = 10\<rparr>]"
    unfolding s_def by (simp add: pool_eval)
  have p: "promises s = [Pending]"
    unfolding s_def by (simp add: pool_eval)
  note fin = shutdown_finality [of s "\<lambda>r. True"]
  have a: "isShuttingDown (shutdown s (\<lambda>r. True))" using fin by blast
  have b: "\<forall>req \<in> set (waitingQueue s).
        RejectCalled (reject req) PoolShuttingDown \<in> set (effects (shutdown s (\<lambda>r. True)))
      \<and> (rejecter_id (reject req) < length (promises s)
           \<and> promises s ! rejecter_id (reject req) = Pending
         \<longrightarrow> promises (shutdown s (\<lambda>r. True)) ! rejecter_id (reject req) = Rejected PoolShuttingDown)"
    using fin by blast
  have c: "acquire_begin (run (shutdown s (\<lambda>r. True)) [Release 0 20]) 30 ''c''
             = (Threw PoolShuttingDown, run (shutdown s (\<lambda>r. True)) [Release 0 20])"
    using fin by blast
  from b have "RejectCalled (WrappedReject 0) PoolShuttingDown \<in> set (effects (shutdown s (\<lambda>r. True)))"
    "promises (shutdown s (\<lambda>r. True)) ! 0 = Rejected PoolShuttingDown"
    by (simp_all add: q p)
  with a c show ?thesis unfolding s_def by simp
qed

section \<open>Order of service\<close>

text \<open>
  C3 (the code at the failing input): a pool of at most one connection whose connection
  is in use.  A second \<^verbatim>\<open>acquire\<close> is enqueued with promise 0 and its timer fires, which
  rejects promise 0 and leaves its request in the queue; a third \<^verbatim>\<open>acquire\<close> is enqueued
  behind it with promise 1.  Then the connection is released.  \<^verbatim>\<open>processWaitingQueue\<close>
  shifts the request of promise 0, marks the connection in use and calls the closure of
  that request, which can no longer fulfil the rejected promise; it finds no other
  connection and stops.  A connection became available and no request was fulfilled:
  promise 0 stays rejected, promise 1 stays pending in the queue, and the connection is
  held by no caller.
\<close>

theorem release_serves_timed_out_request:
  "promises (run (constructor config_one)
      [Acquire 0 ''a'', ConnectSettles 0 (HandshakeOk 5), Acquire 10 ''b'', AcquireTimerFires 0,
       Acquire 120 ''c''])
     = [Rejected (AcquireTimeout 100), Pending]
   \<and> queued_ids (waitingQueue (run (constructor config_one)
      [Acquire 0 ''a'', ConnectSettles 0 (HandshakeOk 5), Acquire 10 ''b'', AcquireTimerFires 0,
       Acquire 120 ''c''])) = [0, 1]
   \<and> promises (run (constructor config_one)
      [Acquire 0 ''a'', ConnectSettles 0 (HandshakeOk 5), Acquire 10 ''b'', AcquireTimerFires 0,
       Acquire 120 ''c'', Release 0 200])
     = [Rejected (AcquireTimeout 100), Pending]
   \<and> queued_ids (waitingQueue (run (constructor config_one)
      [Acquire 0 ''a'', ConnectSettles 0 (HandshakeOk 5), Acquire 10 ''b'', AcquireTimerFires 0,
       Acquire 120 ''c'', Release 0 200])) = [1]
   \<and> map inUse (connections (run (constructor config_one)
      [Acquire 0 ''a'', ConnectSettles 0 (HandshakeOk 5), Acquire 10 ''b'', AcquireTimerFires 0,
       Acquire 120 ''c'', Release 0 200])) = [True]
   \<and> effects (run (constructor config_one)
      [Acquire 0 ''a'', ConnectSettles 0 (HandshakeOk 5), Acquire 10 ''b'', AcquireTimerFires 0,
       Acquire 120 ''c'', Release 0 200])
     = [RejectCalled (PromiseReject 0) (AcquireTimeout 100), ResolveCalled (WrappedResolve 0) 0]"
  by (simp add: pool_eval queued_ids_def)

text \<open>
  What the code does keep.  \<^verbatim>\<open>waitForConnection\<close> numbers the promises of waiting callers in
  the order of their arrival and puts each request at the end of the queue.  In every
  state that a pool can reach, the promises whose \<^verbatim>\<open>resolve\<close> closure has been called, in
  the order of the calls, followed by the promises still queued, from the head of the
  queue, are in ascending order; one \<^verbatim>\<open>release\<close> calls the closures of a prefix of the
  queue, in the order of the queue, and leaves the rest in place.  When the request at
  the head of the queue has a pending promise and the released connection is healthy,
  that promise is fulfilled with a client.
\<close>

lemma resolve_calls_in_arrival_order:
  "sorted_wrt (<) (resolved_ids (effects (run (constructor pc) evs))
                    @ queued_ids (waitingQueue (run (constructor pc) evs)))
   \<and> (\<exists>cs. length cs \<le> length (waitingQueue s)
        \<and> waitingQueue (release s r now) = drop (length cs) (waitingQueue s)
        \<and> effects (release s r now) =
            effects s @ map (\<lambda>(req, c). ResolveCalled (resolve req) c) (zip (waitingQueue s) cs)
        \<and> (waitingQueue s \<noteq> []
             \<and> (\<exists>i. findConnectionByClient s r = Some i
                    \<and> isConnected (client (connections s ! i)) now)
           \<longrightarrow> cs \<noteq> []))
   \<and> waitingQueue (snd (waitForConnection s now)) = waitingQueue s @
        [\<lparr>resolve = WrappedResolve (length (promises s)),
          reject = WrappedReject (length (promises s)), timestamp = now\<rparr>]"
proof -
  have "fifo_inv (run (constructor pc) evs)"
    by (rule fifo_inv_run) (rule fifo_inv_constructor)
  then show ?thesis
    using release_served [of s r now] by (simp add: fifo_inv_def)
qed

lemma processWaitingQueue_keeps_settled:
  assumes "p < length (promises s)" and "promises s ! p \<noteq> Pending"
  shows "promises (processWaitingQueue s now) ! p = promises s ! p"
proof -
  have "p < length (promises (processWaitingQueue s now))
      \<and> promises (processWaitingQueue s now) ! p = promises s ! p"
    by (rule processWaitingQueue_invariant) (use assms in \<open>auto simp: call_resolve_nth\<close>)
  then show ?thesis by simp
qed

lemma release_fulfils_pending_head:
  assumes "waitingQueue s = req # rest"
    and "resolver_id (resolve req) < length (promises s)"
    and "promises s ! resolver_id (resolve req) = Pending"
    and "findConnectionByClient s r = Some i"
    and "isConnected (client (connections s ! i)) now"
  shows "\<exists>c. promises (release s r now) ! resolver_id (resolve req) = Fulfilled c"
proof -
  define s1 where "s1 = s\<lparr>connections := (connections s)
                 [i := (connections s ! i)\<lparr>inUse := False, lastUsed := now\<rparr>]\<rparr>"
  have rel: "release s r now = processWaitingQueue s1 now"
    using assms(4) by (simp add: release_def s1_def)
  have i: "i < length (connections s)"
    using first_index_Some [OF assms(4) [unfolded findConnectionByClient_def]] by simp
  have "connections s1 ! i \<in> set (connections s1)"
    using i by (intro nth_mem) (simp add: s1_def)
  moreover have "\<not> inUse (connections s1 ! i) \<and> isConnected (client (connections s1 ! i)) now"
    using i assms(5) by (simp add: s1_def)
  ultimately have "findAvailableConnection s1 now \<noteq> None"
    unfolding findAvailableConnection_def first_index_None by blast
  then obtain j where j: "findAvailableConnection s1 now = Some j" by blast
  define c where "c = ref (client (connections s1 ! j))"
  define s2 where "s2 = call_resolve (resolve req) c
      (s1\<lparr>waitingQueue := rest,
          connections := (connections s1)
            [j := (connections s1 ! j)\<lparr>inUse := True, lastUsed := now\<rparr>]\<rparr>)"
  have q1: "waitingQueue s1 = req # rest" using assms(1) by (simp add: s1_def)
  have step: "processWaitingQueue s1 now = processWaitingQueue s2 now"
    using q1 j by (subst processWaitingQueue.simps) (simp add: s2_def c_def Let_def)
  have p2: "promises s2 ! resolver_id (resolve req) = Fulfilled c"
    using assms(2,3) by (simp add: s2_def s1_def call_resolve_nth)
  have len2: "resolver_id (resolve req) < length (promises s2)"
    using assms(2) by (simp add: s2_def s1_def)
  have "promises (processWaitingQueue s2 now) ! resolver_id (resolve req) = Fulfilled c"
    using processWaitingQueue_keeps_settled [OF len2, of now] p2 by simp
  then show ?thesis by (auto simp: rel step)
qed

section \<open>Release\<close>

text \<open>
  C9: \<^verbatim>\<open>release\<close> has no failing branch.  Given a client that no connection of the pool
  holds, it returns the pool as it is.  Given a client of the pool, it finds the first
  connection \<open>i\<close> that holds it, sets \<open>inUse\<close> to false and \<open>lastUsed\<close> to the clock on that
  connection alone, and then services the wait queue.  It calls no \<^verbatim>\<open>reject\<close> closure.
\<close>

theorem release_frame:
  "((\<forall>c \<in> set (connections s). ref (client c) \<noteq> r) \<longrightarrow> release s r now = s)
 \<and> (\<forall>i. findConnectionByClient s r = Some i \<longrightarrow>
        i < length (connections s) \<and> ref (client (connections s ! i)) = r
      \<and> (\<forall>j < i. ref (client (connections s ! j)) \<noteq> r)
      \<and> release s r now =
          processWaitingQueue
            (s\<lparr>connections := (connections s)
                 [i := (connections s ! i)\<lparr>inUse := False, lastUsed := now\<rparr>]\<rparr>) now)
 \<and> (\<forall>g e. RejectCalled g e \<in> set (effects (release s r now))
        \<longrightarrow> RejectCalled g e \<in> set (effects s))"
  using release_unknown [of s r now] release_known [of s r _ now]
    release_rejects_nobody [of _ _ s r now] by blast

theorem release_frame_witness:
  "release (run (constructor config_one) [Acquire 0 ''a'', ConnectSettles 0 (HandshakeOk 5)]) 7 20
     = run (constructor config_one) [Acquire 0 ''a'', ConnectSettles 0 (HandshakeOk 5)]
   \<and> map inUse (connections (release (run (constructor config_one)
        [Acquire 0 ''a'', ConnectSettles 0 (HandshakeOk 5)]) 0 20)) = [False]"
proof -
  define s where "s = run (constructor config_one) [Acquire 0 ''a'', ConnectSettles 0 (HandshakeOk 5)]"
  have conns: "connections s =
      [\<lparr>client = \<lparr>ref = 0, connection = True, client_lastUsed = 5, activeQueries = []\<rparr>,
        conn_id = ''a'', createdAt = 5, lastUsed = 5, inUse = True\<rparr>]"
    and q: "waitingQueue s = []"
    unfolding s_def by (simp_all add: pool_eval)
  have unknown: "\<forall>c \<in> set (connections s). ref (client c) \<noteq> 7"
    by (simp add: conns)
  have known: "findConnectionByClient s 0 = Some 0"
    by (simp add: findConnectionByClient_def conns)
  from release_frame [of s 7 20] unknown have a: "release s 7 20 = s" by blast
  from release_frame [of s 0 20] known
  have "release s 0 20 = processWaitingQueue
            (s\<lparr>connections := (connections s)
                 [0 := (connections s ! 0)\<lparr>inUse := False, lastUsed := 20\<rparr>]\<rparr>) 20"
    by blast
  then have b: "map inUse (connections (release s 0 20)) = [False]"
    by (simp add: processWaitingQueue.simps q conns)
  from a b show ?thesis unfolding s_def by simp
qed

section \<open>Timeout of a waiting caller\<close>

text \<open>
  C4 (the code at the failing input): a pool of at most one connection whose connection
  is in use; a second \<^verbatim>\<open>acquire\<close> at time 10 is enqueued with promise 0; its timer fires.
  The promise is rejected with the acquire-timeout error naming 100 milliseconds, but the
  request is still in the queue: \<^verbatim>\<open>findIndex\<close> compares the queued wrapping closure with
  the executor's \<^verbatim>\<open>resolve\<close>, which it never equals, so nothing is spliced out.  When the
  connection is released later, the request of the caller that has gone is served and the
  connection is marked in use again.
\<close>

theorem acquire_timeout_keeps_request:
  "waitingQueue (run (constructor config_one)
      [Acquire 0 ''a'', ConnectSettles 0 (HandshakeOk 5), Acquire 10 ''b'', AcquireTimerFires 0])
     = [\<lparr>resolve = WrappedResolve 0, reject = WrappedReject 0, timestamp = 10\<rparr>]
   \<and> promises (run (constructor config_one)
      [Acquire 0 ''a'', ConnectSettles 0 (HandshakeOk 5), Acquire 10 ''b'', AcquireTimerFires 0])
     = [Rejected (AcquireTimeout 100)]"
  by (simp add: pool_eval)

lemma timed_out_request_takes_connection:
  "map inUse (connections (run (constructor config_one)
      [Acquire 0 ''a'', ConnectSettles 0 (HandshakeOk 5), Acquire 10 ''b'', AcquireTimerFires 0,
       Release 0 200])) = [True]
   \<and> promises (run (constructor config_one)
      [Acquire 0 ''a'', ConnectSettles 0 (HandshakeOk 5), Acquire 10 ''b'', AcquireTimerFires 0,
       Release 0 200]) = [Rejected (AcquireTimeout 100)]"
  by (simp add: pool_eval)

text \<open>
  In no state that a pool can reach does a firing timer take anything out of the queue.
\<close>

lemma acquire_timeout_never_removes:
  "waitingQueue (acquireTimerFires p (run (constructor pc) evs))
     = waitingQueue (run (constructor pc) evs)"
proof -
  let ?s = "run (constructor pc) evs"
  have "fifo_inv ?s"
    by (rule fifo_inv_run) (rule fifo_inv_constructor)
  then have w: "\<forall>req \<in> set (waitingQueue (clearTimeout p ?s)).
             \<exists>p'. resolve req = WrappedResolve p' \<and> reject req = WrappedReject p'"
    by (simp add: fifo_inv_def)
  show ?thesis
    using acquireTimeoutCallback_wrapped [OF w] by (simp add: acquireTimerFires_def)
qed

section \<open>Idle reclamation\<close>

text \<open>
  C1 (the code at the failing input): \<open>minConnections = 1\<close>, three connections acquired
  and released, all idle for longer than \<open>idleTimeout\<close> when the reclamation runs.  Each of
  the three passes the test \<^verbatim>\<open>this.connections.size > minConnections\<close>, which reads the
  size before anything is removed, and all three are disconnected and removed: the pool
  is left with no connection.
\<close>

theorem cleanup_below_minimum:
  "length (connections (run (constructor config_idle)
      [Acquire 0 ''a'', ConnectSettles 0 (HandshakeOk 5),
       Acquire 10 ''b'', ConnectSettles 1 (HandshakeOk 5),
       Acquire 20 ''c'', ConnectSettles 2 (HandshakeOk 5),
       Release 0 30, Release 1 31, Release 2 32])) = 3
   \<and> connections (run (constructor config_idle)
      [Acquire 0 ''a'', ConnectSettles 0 (HandshakeOk 5),
       Acquire 10 ''b'', ConnectSettles 1 (HandshakeOk 5),
       Acquire 20 ''c'', ConnectSettles 2 (HandshakeOk 5),
       Release 0 30, Release 1 31, Release 2 32,
       CleanupTick 60000 (\<lambda>r. True)]) = []
   \<and> minConnections (poolConfig (run (constructor config_idle)
      [Acquire 0 ''a'', ConnectSettles 0 (HandshakeOk 5),
       Acquire 10 ''b'', ConnectSettles 1 (HandshakeOk 5),
       Acquire 20 ''c'', ConnectSettles 2 (HandshakeOk 5),
       Release 0 30, Release 1 31, Release 2 32,
       CleanupTick 60000 (\<lambda>r. True)])) = 1"
  by (simp add: pool_eval)

text \<open>
  What the reclamation does keep: it does nothing when the pool is shutting down or holds
  no more than \<open>minConnections\<close> connections, and in a pool whose connections have
  distinct identifiers and distinct clients, a connection that is in use or was used
  within \<open>idleTimeout\<close> stays in the pool as it is.
\<close>

lemma cleanup_noop:
  assumes "isShuttingDown s \<or> int (length (connections s)) \<le> minConnections (poolConfig s)"
  shows "cleanupIdleConnections s now d = s"
  using assms by (auto simp: cleanupIdleConnections_def)

lemma closeIdle_keeps:
  assumes "c \<in> set (connections st)"
    and "conn_id x \<noteq> conn_id c" and "ref (client x) \<noteq> ref (client c)"
  shows "c \<in> set (connections (closeIdle d x st))"
  using assms
  by (auto simp: closeIdle_def map_delete_def Let_def split: prod.splits sum.splits)

lemma fold_closeIdle_keeps:
  assumes "c \<in> set (connections st)"
    and "\<forall>x \<in> set xs. conn_id x \<noteq> conn_id c \<and> ref (client x) \<noteq> ref (client c)"
  shows "c \<in> set (connections (fold (closeIdle d) xs st))"
  using assms
proof (induction xs arbitrary: st)
  case Nil
  then show ?case by simp
next
  case (Cons x xs)
  have "c \<in> set (connections (closeIdle d x st))"
    using Cons.prems by (intro closeIdle_keeps) simp_all
  then show ?case using Cons.IH Cons.prems(2) by simp
qed

lemma cleanup_keeps_used:
  assumes "distinct (map conn_id (connections s))"
    and "distinct (map (\<lambda>c. ref (client c)) (connections s))"
    and "c \<in> set (connections s)"
    and "inUse c \<or> now - lastUsed c \<le> idleTimeout (poolConfig s)"
  shows "c \<in> set (connections (cleanupIdleConnections s now d))"
proof (cases "isShuttingDown s")
  case True
  then show ?thesis using assms(3) by (simp add: cleanupIdleConnections_def)
next
  case False
  let ?close = "filter (\<lambda>conn.
                  let idleTime = now - lastUsed conn
                  in \<not> inUse conn \<and> idleTime > idleTimeout (poolConfig s)
                     \<and> int (length (connections s)) > minConnections (poolConfig s))
                (connections s)"
  have "conn_id x \<noteq> conn_id c \<and> ref (client x) \<noteq> ref (client c)" if "x \<in> set ?close" for x
  proof -
    from that have x: "x \<in> set (connections s)" and "x \<noteq> c"
      using assms(4) by (auto simp: Let_def)
    then show ?thesis
      using assms(1-3) by (metis (mono_tags, lifting) distinct_map inj_on_def)
  qed
  then have "c \<in> set (connections (fold (closeIdle d) ?close s))"
    using assms(3) by (intro fold_closeIdle_keeps) blast+
  with False show ?thesis by (simp add: cleanupIdleConnections_def Let_def)
qed

section \<open>A failed creation during acquire\<close>



section \<open>Capacity\<close>

text \<open>
  C2 (as stated): the connection count and the number of connections in use never exceed
  \<open>maxConnections\<close>.  With \<open>maxConnections = 1\<close>, two calls of \<^verbatim>\<open>acquire\<close> made before the
  handshake of either has settled both find the pool empty, both create a connection, and
  both connections are added and marked in use.
\<close>

theorem capacity_counterexample:
  "\<not> (int (length (connections (run (constructor config_one)
          [Acquire 0 ''a'', Acquire 1 ''b'',
           ConnectSettles 0 (HandshakeOk 5), ConnectSettles 1 (HandshakeOk 5)])))
        \<le> maxConnections (poolConfig (run (constructor config_one)
          [Acquire 0 ''a'', Acquire 1 ''b'',
           ConnectSettles 0 (HandshakeOk 5), ConnectSettles 1 (HandshakeOk 5)]))
      \<and> int (getInUseConnectionCount (run (constructor config_one)
          [Acquire 0 ''a'', Acquire 1 ''b'',
           ConnectSettles 0 (HandshakeOk 5), ConnectSettles 1 (HandshakeOk 5)]))
        \<le> maxConnections (poolConfig (run (constructor config_one)
          [Acquire 0 ''a'', Acquire 1 ''b'',
           ConnectSettles 0 (HandshakeOk 5), ConnectSettles 1 (HandshakeOk 5)])))"
  by (simp add: pool_eval getInUseConnectionCount_def)

text \<open>
  C2 (amended): when calls of \<^verbatim>\<open>acquire\<close> and \<^verbatim>\<open>release\<close> are made one after the other,
  each \<^verbatim>\<open>acquire\<close> running to its return or to its enqueueing before the next call, on a
  pool that holds at most \<open>maxConnections\<close> connections, the connection count and the
  number of connections in use never exceed \<open>maxConnections\<close>.  In any state, \<^verbatim>\<open>acquire\<close>
  starts to create a connection only when the number of connections in the pool, not
  counting those whose handshake is still pending, is below \<open>maxConnections\<close>.
\<close>

theorem capacity_sequential:
  assumes "int (length (connections s)) \<le> maxConnections (poolConfig s)"
  shows "int (length (connections (foldl perform s calls))) \<le> maxConnections (poolConfig s)
       \<and> int (getInUseConnectionCount (foldl perform s calls)) \<le> maxConnections (poolConfig s)
       \<and> (\<forall>s' now k r. fst (acquire_begin s' now k) = AwaitingConnect r
             \<longrightarrow> int (length (connections s')) < maxConnections (poolConfig s'))"
proof -
  have "getInUseConnectionCount (foldl perform s calls)
          \<le> length (connections (foldl perform s calls))"
    by (simp add: getInUseConnectionCount_def)
  then show ?thesis
    using foldl_perform_capacity [OF assms, of calls] acquire_begin_creates_below_max
    by (auto simp: int_ops)
qed

theorem capacity_sequential_witness:
  "int (length (connections (foldl perform (constructor config_one)
      [AcquireCall 0 ''a'' (HandshakeOk 5), AcquireCall 10 ''b'' (HandshakeOk 5),
       ReleaseCall 0 20]))) \<le> 1
   \<and> int (getInUseConnectionCount (foldl perform (constructor config_one)
      [AcquireCall 0 ''a'' (HandshakeOk 5), AcquireCall 10 ''b'' (HandshakeOk 5),
       ReleaseCall 0 20])) \<le> 1"
proof -
  have h: "int (length (connections (constructor config_one)))
             \<le> maxConnections (poolConfig (constructor config_one))"
    by (simp add: constructor_def or_default_def)
  have m: "maxConnections (poolConfig (constructor config_one)) = 1"
    by (simp add: constructor_def or_default_def)
  show ?thesis
    using capacity_sequential [OF h, of "[AcquireCall 0 ''a'' (HandshakeOk 5),
       AcquireCall 10 ''b'' (HandshakeOk 5), ReleaseCall 0 20]"] unfolding m by blast
qed

end
